theory Spec2Isabelle
  imports Main "HOL-Library.Sublist" "HOL-Library.AList"
begin

section \<open>Strings of the converter\<close>

text \<open>
  The converter works on JavaScript strings. The model takes a string to be a list of
  \<^typ>\<open>char\<close>, that is, of code units below 256. On this range the whitespace class of
  \<^verbatim>\<open>\s\<close> and of \<^verbatim>\<open>trim\<close> is tab, line feed, vertical tab, form feed, carriage
  return, space and the no-break space; the line terminators of \<^verbatim>\<open>^\<close> under the
  \<^verbatim>\<open>m\<close> flag are line feed and carriage return; \<^verbatim>\<open>\w\<close> is
  \<^verbatim>\<open>[A-Za-z0-9_]\<close>; and \<^verbatim>\<open>toLowerCase\<close> maps A-Z and the upper-case letters of
  the Latin-1 block to their lower-case forms, one code unit each.
\<close>

definition code :: "char \<Rightarrow> nat" where
  "code c = of_char c"

definition isSpace :: "char \<Rightarrow> bool" where
  "isSpace c = (code c \<in> {9, 10, 11, 12, 13, 32, 160})"

definition isLineTerminator :: "char \<Rightarrow> bool" where
  "isLineTerminator c = (code c \<in> {10, 13})"

definition isLowerAlpha :: "char \<Rightarrow> bool" where
  "isLowerAlpha c = (97 \<le> code c \<and> code c \<le> 122)"

definition isUpperAlpha :: "char \<Rightarrow> bool" where
  "isUpperAlpha c = (65 \<le> code c \<and> code c \<le> 90)"

definition isDigit :: "char \<Rightarrow> bool" where
  "isDigit c = (48 \<le> code c \<and> code c \<le> 57)"

definition isWordChar :: "char \<Rightarrow> bool" where
  "isWordChar c = (isLowerAlpha c \<or> isUpperAlpha c \<or> isDigit c \<or> c = CHR ''_'')"

fun setBit5 :: "char \<Rightarrow> char" where
  "setBit5 (Char b0 b1 b2 b3 b4 b5 b6 b7) = Char b0 b1 b2 b3 b4 True b6 b7"

definition toLowerChar :: "char \<Rightarrow> char" where
  "toLowerChar c =
     (if isUpperAlpha c \<or> (192 \<le> code c \<and> code c \<le> 222 \<and> code c \<noteq> 215)
      then setBit5 c else c)"

definition toLowerCase :: "string \<Rightarrow> string" where
  "toLowerCase s = map toLowerChar s"

definition trimStart :: "string \<Rightarrow> string" where
  "trimStart s = dropWhile isSpace s"

definition trimEnd :: "string \<Rightarrow> string" where
  "trimEnd s = rev (dropWhile isSpace (rev s))"

definition trim :: "string \<Rightarrow> string" where
  "trim s = trimEnd (trimStart s)"

text \<open>\<^verbatim>\<open>s.startsWith(p)\<close> and \<^verbatim>\<open>s.includes(p)\<close>.\<close>

fun startsWith :: "string \<Rightarrow> string \<Rightarrow> bool" where
  "startsWith s [] = True"
| "startsWith [] (p # ps) = False"
| "startsWith (x # xs) (p # ps) = (x = p \<and> startsWith xs ps)"

fun includesStr :: "string \<Rightarrow> string \<Rightarrow> bool" where
  "includesStr [] p = (p = [])"
| "includesStr (x # xs) p = (startsWith (x # xs) p \<or> includesStr xs p)"

text \<open>
  \<^verbatim>\<open>s.replace(/[C]+/g, r)\<close> for a character class \<open>C\<close>: every maximal run of
  characters of the class is replaced by \<open>r\<close>.
\<close>

function replaceRuns :: "(char \<Rightarrow> bool) \<Rightarrow> string \<Rightarrow> string \<Rightarrow> string" where
  "replaceRuns C r [] = []"
| "replaceRuns C r (x # xs) =
     (if C x then r @ replaceRuns C r (dropWhile C xs) else x # replaceRuns C r xs)"
  by pat_completeness auto
termination
  by (relation "measure (\<lambda>(C, r, xs). length xs)")
     (auto simp: length_dropWhile_le less_Suc_eq_le)

section \<open>Name normalizer\<close>

definition KIRO_SKILL_NAME_MAX_LENGTH :: nat where
  "KIRO_SKILL_NAME_MAX_LENGTH = 64"

definition KIRO_DESCRIPTION_MAX_LENGTH :: nat where
  "KIRO_DESCRIPTION_MAX_LENGTH = 1024"

definition isHyphen :: "char \<Rightarrow> bool" where
  "isHyphen c = (c = CHR ''-'')"

text \<open>The class \<^verbatim>\<open>[a-z0-9_-]\<close>.\<close>

definition isNameChar :: "char \<Rightarrow> bool" where
  "isNameChar c = (isLowerAlpha c \<or> isDigit c \<or> c = CHR ''_'' \<or> c = CHR ''-'')"

text \<open>\<^verbatim>\<open>s.lastIndexOf(c)\<close>: the index of the last occurrence, or \<open>-1\<close>.\<close>

fun lastIndexOf :: "string \<Rightarrow> char \<Rightarrow> int" where
  "lastIndexOf [] c = -1"
| "lastIndexOf (x # xs) c =
     (let r = lastIndexOf xs c in if 0 \<le> r then r + 1 else if x = c then 0 else -1)"

text \<open>\<^verbatim>\<open>s.replace(/-+$/g, "")\<close> and \<^verbatim>\<open>s.replace(/^-+|-+$/g, "")\<close>.\<close>

definition stripTrailingHyphens :: "string \<Rightarrow> string" where
  "stripTrailingHyphens s = rev (dropWhile isHyphen (rev s))"

definition stripHyphens :: "string \<Rightarrow> string" where
  "stripHyphens s = stripTrailingHyphens (dropWhile isHyphen s)"

text \<open>
  The chain of replacements of \<^verbatim>\<open>normalizeName\<close> on the trimmed, non-empty value: the
  form of the name before the length limit is enforced.
\<close>

definition normalizeChain :: "string \<Rightarrow> string" where
  "normalizeChain trimmed =
     stripHyphens
       (replaceRuns isHyphen ''-''
         (replaceRuns (\<lambda>c. \<not> isNameChar c) ''-''
           (replaceRuns (\<lambda>c. c = CHR '':'' \<or> isSpace c) ''-''
             (replaceRuns (\<lambda>c. c = CHR 0x5C \<or> c = CHR ''/'') ''-''
               (toLowerCase trimmed)))))"

text \<open>The block \<^verbatim>\<open>if (normalized.length > KIRO_SKILL_NAME_MAX_LENGTH) { ... }\<close>.\<close>

definition enforceMaxLength :: "string \<Rightarrow> string" where
  "enforceMaxLength normalized =
     (if length normalized > KIRO_SKILL_NAME_MAX_LENGTH then
        (let sliced = take KIRO_SKILL_NAME_MAX_LENGTH normalized;
             lastHyphen = lastIndexOf sliced (CHR ''-'');
             cut = (if lastHyphen > 0 then take (nat lastHyphen) sliced else sliced)
         in stripTrailingHyphens cut)
      else normalized)"

text \<open>The test \<^verbatim>\<open>/^[a-z]/.test(s)\<close>.\<close>

fun startsWithLowerAlpha :: "string \<Rightarrow> bool" where
  "startsWithLowerAlpha [] = False"
| "startsWithLowerAlpha (c # cs) = isLowerAlpha c"

definition normalizeName :: "string \<Rightarrow> string" where
  "normalizeName value =
     (let trimmed = trim value in
      if trimmed = [] then ''item''
      else
        (let normalized = enforceMaxLength (normalizeChain trimmed) in
         if length normalized = 0 \<or> \<not> startsWithLowerAlpha normalized then ''item''
         else normalized))"

section \<open>Content transformation engine\<close>

text \<open>
  Each pass of \<^verbatim>\<open>transformContentForKiro\<close> is a global \<^verbatim>\<open>replace\<close>: the regular
  expression is tried at each position of the input from left to right, the leftmost match
  is replaced, and the search goes on after the match. Assertions (\<^verbatim>\<open>^\<close>,
  \<^verbatim>\<open>\b\<close>, lookbehind, lookahead) read the input, not the output, so each pass carries
  the input character before the current position.
\<close>

definition headOpt :: "string \<Rightarrow> char option" where
  "headOpt s = (case s of [] \<Rightarrow> None | c # cs \<Rightarrow> Some c)"

text \<open>\<^verbatim>\<open>\b\<close> between the character before and the character after a position.\<close>

definition isWordOpt :: "char option \<Rightarrow> bool" where
  "isWordOpt p = (case p of None \<Rightarrow> False | Some c \<Rightarrow> isWordChar c)"

definition wordBoundary :: "char option \<Rightarrow> char option \<Rightarrow> bool" where
  "wordBoundary prev next = (isWordOpt prev \<noteq> isWordOpt next)"

subsection \<open>Pass 1: Task agent calls\<close>

text \<open>The class \<^verbatim>\<open>[a-z0-9-]\<close>.\<close>

definition isAgentChar :: "char \<Rightarrow> bool" where
  "isAgentChar c = (isLowerAlpha c \<or> isDigit c \<or> c = CHR ''-'')"

text \<open>
  A match of \<^verbatim>\<open>(\s*-?\s*)Task\s+([a-z][a-z0-9-]*)\(([^)]+)\)\<close> at the head of a string:
  the three groups and the text after the match.
\<close>

definition matchTaskCall :: "string \<Rightarrow> (string \<times> string \<times> string \<times> string) option" where
  "matchTaskCall s =
     (let ws1 = takeWhile isSpace s; s1 = dropWhile isSpace s;
          hy = (if startsWith s1 ''-'' then ''-'' else []); s2 = drop (length hy) s1;
          ws2 = takeWhile isSpace s2; s3 = dropWhile isSpace s2
      in if \<not> startsWith s3 ''Task'' then None
         else
           (let s4 = drop 4 s3; ws3 = takeWhile isSpace s4; s5 = dropWhile isSpace s4
            in if ws3 = [] then None
               else
                 (case s5 of
                    [] \<Rightarrow> None
                  | c # cs \<Rightarrow>
                      if \<not> isLowerAlpha c then None
                      else
                        (let s6 = dropWhile isAgentChar cs
                         in case s6 of
                              [] \<Rightarrow> None
                            | p # s7 \<Rightarrow>
                                if p \<noteq> CHR ''('' then None
                                else
                                  (let args = takeWhile (\<lambda>x. x \<noteq> CHR '')'') s7;
                                       s8 = dropWhile (\<lambda>x. x \<noteq> CHR '')'') s7
                                   in if args = [] \<or> s8 = [] then None
                                      else Some (ws1 @ hy @ ws2,
                                                 c # takeWhile isAgentChar cs, args, tl s8))))))"

lemma matchTaskCall_shorter:
  assumes "matchTaskCall s = Some (pre, agentName, args, rest)"
  shows "length rest < length s"
proof -
  have d: "\<And>P (xs::string). length (dropWhile P xs) \<le> length xs"
    by (rule length_dropWhile_le)
  define s1 where "s1 = dropWhile isSpace s"
  define s2 where "s2 = drop (length (if startsWith s1 ''-'' then ''-'' else [])) s1"
  define s3 where "s3 = dropWhile isSpace s2"
  define s5 where "s5 = dropWhile isSpace (drop 4 s3)"
  have l5: "length s5 \<le> length s"
  proof -
    have "length s5 \<le> length s3" unfolding s5_def
      by (rule order_trans[OF d]) simp
    also have "\<dots> \<le> length s2" unfolding s3_def by (rule d)
    also have "\<dots> \<le> length s1" unfolding s2_def by simp
    also have "\<dots> \<le> length s" unfolding s1_def by (rule d)
    finally show ?thesis .
  qed
  from assms obtain c cs p s7 where
    s5: "s5 = c # cs" and s6: "dropWhile isAgentChar cs = p # s7"
    and s8: "dropWhile (\<lambda>x. x \<noteq> CHR '')'') s7 \<noteq> []"
    and rest: "rest = tl (dropWhile (\<lambda>x. x \<noteq> CHR '')'') s7)"
    unfolding matchTaskCall_def Let_def s1_def[symmetric] s2_def[symmetric]
      s3_def[symmetric] s5_def[symmetric]
    by (auto split: if_splits list.splits)
  have "length rest < length (dropWhile (\<lambda>x. x \<noteq> CHR '')'') s7)"
    using s8 rest by (cases "dropWhile (\<lambda>x. x \<noteq> CHR '')'') s7") auto
  also have "\<dots> \<le> length s7" by (rule d)
  also have "\<dots> < length (dropWhile isAgentChar cs)" using s6 by simp
  also have "\<dots> \<le> length cs" by (rule d)
  also have "\<dots> < length s5" using s5 by simp
  finally show ?thesis using l5 by simp
qed

function taskPass :: "bool \<Rightarrow> string \<Rightarrow> string" where
  "taskPass lineStart [] = []"
| "taskPass lineStart (c # cs) =
     (case (if lineStart then matchTaskCall (c # cs) else None) of
        Some (pre, agentName, args, rest) \<Rightarrow>
          pre @ ''Use the use_subagent tool to delegate to the '' @ normalizeName agentName
            @ '' agent: '' @ trim args @ taskPass False rest
      | None \<Rightarrow> c # taskPass (isLineTerminator c) cs)"
  by pat_completeness auto
termination
  by (relation "measure (\<lambda>(b, s). length s)")
     (auto split: if_splits dest: matchTaskCall_shorter)

subsection \<open>Pass 2: paths\<close>

text \<open>The lookbehind \<^verbatim>\<open>(?<=^|\s|["'`])\<close>.\<close>

definition pathBoundary :: "char option \<Rightarrow> bool" where
  "pathBoundary prev =
     (case prev of
        None \<Rightarrow> True
      | Some c \<Rightarrow> isLineTerminator c \<or> isSpace c
                  \<or> c = CHR 0x22 \<or> c = CHR 0x27 \<or> c = CHR 0x60)"

text \<open>
  \<^verbatim>\<open>s.replace(/(?<=B)LIT/gm, r)\<close> for a lookbehind \<open>B\<close> and a literal \<open>LIT\<close>, which
  is not empty in either use.
\<close>

function replaceLiteralBehind ::
  "(char option \<Rightarrow> bool) \<Rightarrow> string \<Rightarrow> string \<Rightarrow> char option \<Rightarrow> string \<Rightarrow> string" where
  "replaceLiteralBehind B lit r prev [] = []"
| "replaceLiteralBehind B lit r prev (c # cs) =
     (if lit \<noteq> [] \<and> B prev \<and> startsWith (c # cs) lit
      then r @ replaceLiteralBehind B lit r (Some (last lit)) (drop (length lit) (c # cs))
      else c # replaceLiteralBehind B lit r (Some c) cs)"
  by pat_completeness auto
termination
  by (relation "measure (\<lambda>(B, lit, r, prev, s). length s)") auto

subsection \<open>Pass 3: slash command references\<close>

text \<open>The lookbehind \<^verbatim>\<open>(?<=^|\s)\<close> and the class \<^verbatim>\<open>[a-zA-Z0-9_:-]\<close>.\<close>

definition slashBoundary :: "char option \<Rightarrow> bool" where
  "slashBoundary prev =
     (case prev of None \<Rightarrow> True | Some c \<Rightarrow> isLineTerminator c \<or> isSpace c)"

definition isCommandChar :: "char \<Rightarrow> bool" where
  "isCommandChar c =
     (isLowerAlpha c \<or> isUpperAlpha c \<or> isDigit c
      \<or> c = CHR ''_'' \<or> c = CHR '':'' \<or> c = CHR ''-'')"

text \<open>
  A match of \<^verbatim>\<open>`?\/([a-zA-Z][a-zA-Z0-9_:-]*)`?\<close> at the head of a string: the group
  and the text after the match.
\<close>

definition matchSlashRef :: "string \<Rightarrow> (string \<times> string) option" where
  "matchSlashRef s =
     (let s1 = (if startsWith s [CHR 0x60] then tl s else s)
      in case s1 of
           [] \<Rightarrow> None
         | sl # s2 \<Rightarrow>
             if sl \<noteq> CHR ''/'' then None
             else
               (case s2 of
                  [] \<Rightarrow> None
                | c # cs \<Rightarrow>
                    if \<not> (isLowerAlpha c \<or> isUpperAlpha c) then None
                    else
                      (let s3 = dropWhile isCommandChar cs;
                           s4 = (if startsWith s3 [CHR 0x60] then tl s3 else s3)
                       in Some (c # takeWhile isCommandChar cs, s4))))"

lemma matchSlashRef_shorter:
  assumes "matchSlashRef s = Some (cmdName, rest)"
  shows "length rest < length s"
proof -
  define s1 where "s1 = (if startsWith s [CHR 0x60] then tl s else s)"
  have l1: "length s1 \<le> length s" unfolding s1_def by simp
  from assms obtain c cs where
    s1: "s1 = CHR ''/'' # c # cs"
    and rest: "rest = (if startsWith (dropWhile isCommandChar cs) [CHR 0x60]
                       then tl (dropWhile isCommandChar cs) else dropWhile isCommandChar cs)"
    unfolding matchSlashRef_def Let_def s1_def[symmetric]
    by (auto split: if_splits list.splits)
  have "length rest \<le> length (dropWhile isCommandChar cs)" using rest by simp
  also have "\<dots> \<le> length cs" by (rule length_dropWhile_le)
  also have "\<dots> < length s1" using s1 by simp
  finally show ?thesis using l1 by simp
qed

function slashPass :: "char option \<Rightarrow> string \<Rightarrow> string" where
  "slashPass prev [] = []"
| "slashPass prev (c # cs) =
     (case (if slashBoundary prev then matchSlashRef (c # cs) else None) of
        Some (cmdName, rest) \<Rightarrow>
          ''the '' @ normalizeName cmdName @ '' skill''
            @ slashPass (Some (last (take (length (c # cs) - length rest) (c # cs)))) rest
      | None \<Rightarrow> c # slashPass (Some c) cs)"
  by pat_completeness auto
termination
  by (relation "measure (\<lambda>(prev, s). length s)")
     (auto split: if_splits dest: matchSlashRef_shorter)

subsection \<open>Pass 4: tool names\<close>

definition CLAUDE_TO_KIRO_TOOLS :: "(string \<times> string) list" where
  "CLAUDE_TO_KIRO_TOOLS =
     [(''Bash'', ''shell''), (''Write'', ''write''), (''Read'', ''read''), (''Edit'', ''write''),
      (''Glob'', ''glob''), (''Grep'', ''grep''), (''WebFetch'', ''web_fetch''),
      (''Task'', ''use_subagent'')]"

text \<open>The lookahead \<^verbatim>\<open>(?=\s+tool|\s+to\s)\<close>.\<close>

definition toolLookahead :: "string \<Rightarrow> bool" where
  "toolLookahead s =
     (let r = dropWhile isSpace s
      in takeWhile isSpace s \<noteq> []
         \<and> (startsWith r ''tool''
            \<or> (startsWith r ''to'' \<and> (case drop 2 r of [] \<Rightarrow> False | c # cs \<Rightarrow> isSpace c))))"

text \<open>A match of \<^verbatim>\<open>\bTOOL\b(?=\s+tool|\s+to\s)\<close> at the head of a string.\<close>

definition toolAt :: "string \<Rightarrow> char option \<Rightarrow> string \<Rightarrow> bool" where
  "toolAt claudeTool prev s =
     (claudeTool \<noteq> [] \<and> wordBoundary prev (headOpt s) \<and> startsWith s claudeTool
      \<and> wordBoundary (Some (last claudeTool)) (headOpt (drop (length claudeTool) s))
      \<and> toolLookahead (drop (length claudeTool) s))"

function toolPass :: "string \<Rightarrow> string \<Rightarrow> char option \<Rightarrow> string \<Rightarrow> string" where
  "toolPass claudeTool kiroTool prev [] = []"
| "toolPass claudeTool kiroTool prev (c # cs) =
     (if toolAt claudeTool prev (c # cs)
      then kiroTool @ toolPass claudeTool kiroTool (Some (last claudeTool))
                        (drop (length claudeTool) (c # cs))
      else c # toolPass claudeTool kiroTool (Some c) cs)"
  by pat_completeness auto
termination
  by (relation "measure (\<lambda>(claudeTool, kiroTool, prev, s). length s)")
     (auto simp: toolAt_def)

subsection \<open>Pass 5: agent references\<close>

text \<open>
  The names are escaped before they are joined into \<^verbatim>\<open>@(n1|n2|...)\b\<close>, so each is
  matched literally; the alternatives are tried in the order of the list, and an
  alternative after which \<^verbatim>\<open>\b\<close> fails gives way to the next. The argument is the text
  after the \<^verbatim>\<open>@\<close>.
\<close>

definition matchAgentRef :: "string list \<Rightarrow> string \<Rightarrow> string option" where
  "matchAgentRef knownAgentNames s =
     find (\<lambda>n. startsWith s n
               \<and> wordBoundary (Some (last (CHR ''@'' # n))) (headOpt (drop (length n) s)))
          knownAgentNames"

function agentRefPass :: "string list \<Rightarrow> string \<Rightarrow> string" where
  "agentRefPass knownAgentNames [] = []"
| "agentRefPass knownAgentNames (c # cs) =
     (case (if c = CHR ''@'' then matchAgentRef knownAgentNames cs else None) of
        Some agentName \<Rightarrow>
          ''the '' @ normalizeName agentName @ '' agent''
            @ agentRefPass knownAgentNames (drop (length agentName) cs)
      | None \<Rightarrow> c # agentRefPass knownAgentNames cs)"
  by pat_completeness auto
termination
  by (relation "measure (\<lambda>(knownAgentNames, s). length s)") auto

subsection \<open>The five passes in order\<close>

definition toolNamesPass :: "string \<Rightarrow> string" where
  "toolNamesPass s =
     foldl (\<lambda>result (claudeTool, kiroTool). toolPass claudeTool kiroTool None result)
           s CLAUDE_TO_KIRO_TOOLS"

definition transformContentForKiro :: "string \<Rightarrow> string list \<Rightarrow> string" where
  "transformContentForKiro body knownAgentNames =
     (let result = taskPass True body;
          result = replaceLiteralBehind pathBoundary ''~/.claude/'' ''~/.kiro/'' None result;
          result = replaceLiteralBehind pathBoundary ''.claude/'' ''.kiro/'' None result;
          result = slashPass None result;
          result = toolNamesPass result
      in if length knownAgentNames > 0 then agentRefPass knownAgentNames result else result)"

section \<open>Unique names\<close>

text \<open>The decimal form of an index, as a template literal prints it.\<close>

definition digitChar :: "nat \<Rightarrow> char" where
  "digitChar d = ''0123456789'' ! d"

fun showNat :: "nat \<Rightarrow> string" where
  "showNat n = (if n < 10 then [digitChar n] else showNat (n div 10) @ [digitChar (n mod 10)])"

declare showNat.simps [simp del]

lemma showNat_bound: "n < 10 ^ length (showNat n)"
proof (induction n rule: showNat.induct)
  case (1 n)
  show ?case
  proof (cases "n < 10")
    case True
    then show ?thesis by (subst showNat.simps) simp
  next
    case False
    with 1 have "n div 10 < 10 ^ length (showNat (n div 10))" by simp
    then have "n < 10 * 10 ^ length (showNat (n div 10))" by simp
    with False show ?thesis by (subst showNat.simps) simp
  qed
qed

text \<open>
  The registry \<^verbatim>\<open>Set<string>\<close> is the list of its members in insertion order.
\<close>

definition setAdd :: "string \<Rightarrow> string list \<Rightarrow> string list" where
  "setAdd x used = (if x \<in> set used then used else used @ [x])"

definition suffixed :: "string \<Rightarrow> nat \<Rightarrow> string" where
  "suffixed base index = base @ ''-'' @ showNat index"

lemma suffixed_used_bound:
  assumes "suffixed base index \<in> set used"
  shows "index < 10 ^ sum_list (map length used)"
proof -
  have "length (suffixed base index) \<le> sum_list (map length used)"
    using assms by (simp add: member_le_sum_list)
  then have "length (showNat index) \<le> sum_list (map length used)"
    by (simp add: suffixed_def)
  then have "(10::nat) ^ length (showNat index) \<le> 10 ^ sum_list (map length used)"
    by (simp add: power_increasing)
  moreover have "index < 10 ^ length (showNat index)"
    by (rule showNat_bound)
  ultimately show ?thesis by (rule less_le_trans[rotated])
qed

text \<open>The loop \<^verbatim>\<open>while (used.has(`${base}-${index}`)) index += 1\<close>.\<close>

function probeIndex :: "string \<Rightarrow> string list \<Rightarrow> nat \<Rightarrow> nat" where
  "probeIndex base used index =
     (if suffixed base index \<in> set used then probeIndex base used (index + 1) else index)"
  by pat_completeness auto
termination
  by (relation "measure (\<lambda>(base, used, index). 10 ^ sum_list (map length used) - index)")
     (auto dest: suffixed_used_bound)

declare probeIndex.simps [simp del]

definition uniqueName :: "string \<Rightarrow> string list \<Rightarrow> string \<times> string list" where
  "uniqueName base used =
     (if base \<notin> set used then (base, setAdd base used)
      else
        (let index = probeIndex base used 2;
             name = suffixed base index
         in (name, setAdd name used)))"

section \<open>Source plugin and target bundle\<close>

text \<open>
  The fields of the source plugin that the converter reads. An optional field is an
  \<^typ>\<open>'a option\<close>; an object used as a dictionary is the list of its entries in
  insertion order.
\<close>

record ClaudeAgent =
  agent_name :: string
  agent_description :: "string option"
  agent_capabilities :: "string list option"
  agent_body :: string

record ClaudeCommand =
  command_name :: string
  command_description :: "string option"
  command_body :: string

record ClaudeSkill =
  skill_name :: string
  skill_sourceDir :: string

record ClaudeMcpServer =
  server_command :: "string option"
  server_args :: "string list option"
  server_env :: "(string \<times> string) list option"

record ClaudePlugin =
  plugin_root :: string
  plugin_agents :: "ClaudeAgent list"
  plugin_commands :: "ClaudeCommand list"
  plugin_skills :: "ClaudeSkill list"
  plugin_mcpServers :: "(string \<times> ClaudeMcpServer) list option"
  plugin_hooks :: "string list option"

text \<open>
  \<open>plugin_hooks\<close> holds the keys of \<^verbatim>\<open>plugin.hooks.hooks\<close> when \<^verbatim>\<open>plugin.hooks\<close>
  is set.
\<close>

record KiroAgentConfig =
  config_name :: string
  config_description :: string
  config_prompt :: string
  config_tools :: "string list"
  config_resources :: "string list"
  config_includeMcpJson :: bool
  config_welcomeMessage :: "string option"

record KiroAgent =
  kagent_name :: string
  kagent_config :: KiroAgentConfig
  kagent_promptContent :: string

record KiroSkill =
  kskill_name :: string
  kskill_content :: string

record KiroSkillDir =
  kdir_name :: string
  kdir_sourceDir :: string

record KiroSteeringFile =
  steering_name :: string
  steering_content :: string

record KiroMcpServer =
  mcp_command :: string
  mcp_args :: "string list option"
  mcp_env :: "(string \<times> string) list option"

record KiroBundle =
  agents :: "KiroAgent list"
  generatedSkills :: "KiroSkill list"
  skillDirs :: "KiroSkillDir list"
  steeringFiles :: "KiroSteeringFile list"
  mcpServers :: "(string \<times> KiroMcpServer) list"

text \<open>What the converter and the writer print: \<^verbatim>\<open>console.warn\<close> and \<^verbatim>\<open>console.log\<close>.\<close>

datatype msg = Warn string | Log string

section \<open>Converter\<close>

definition sanitizeDescription :: "string \<Rightarrow> nat \<Rightarrow> string" where
  "sanitizeDescription value maxLength =
     (let normalized = trim (replaceRuns isSpace '' '' value)
      in if length normalized \<le> maxLength then normalized
         else trimEnd (take (nat (max 0 (int maxLength - 3))) normalized) @ ''...'')"

text \<open>\<^verbatim>\<open>xs.join(sep)\<close>.\<close>

fun joinWith :: "string \<Rightarrow> string list \<Rightarrow> string" where
  "joinWith sep [] = []"
| "joinWith sep [x] = x"
| "joinWith sep (x # y # ys) = x @ sep @ joinWith sep (y # ys)"

definition newline :: string where
  "newline = [CHR 0x0A]"

definition convertAgentToKiroAgent :: "ClaudeAgent \<Rightarrow> string list \<Rightarrow> KiroAgent" where
  "convertAgentToKiroAgent agent knownAgentNames =
     (let name = normalizeName (agent_name agent);
          description = sanitizeDescription
            (case agent_description agent of
               Some d \<Rightarrow> d
             | None \<Rightarrow> ''Use this agent for '' @ agent_name agent @ '' tasks'')
            KIRO_DESCRIPTION_MAX_LENGTH;
          config = \<lparr> config_name = name,
                     config_description = description,
                     config_prompt = ''file://./prompts/'' @ name @ ''.md'',
                     config_tools = [''*''],
                     config_resources =
                       [''file://.kiro/steering/**/*.md'', ''skill://.kiro/skills/**/SKILL.md''],
                     config_includeMcpJson = True,
                     config_welcomeMessage =
                       Some (''Switching to the '' @ name @ '' agent. '' @ description) \<rparr>;
          body = transformContentForKiro (trim (agent_body agent)) knownAgentNames;
          body = (case agent_capabilities agent of
                    None \<Rightarrow> body
                  | Some caps \<Rightarrow>
                      if length caps > 0
                      then trim (''## Capabilities'' @ newline
                                 @ joinWith newline (map (\<lambda>c. ''- '' @ c) caps)
                                 @ newline @ newline @ body)
                      else body);
          body = (if length body = 0
                  then ''Instructions converted from the '' @ agent_name agent @ '' agent.''
                  else body)
      in \<lparr> kagent_name = name, kagent_config = config, kagent_promptContent = body \<rparr>)"

text \<open>
  \<^verbatim>\<open>formatFrontmatter\<close> is imported from \<^verbatim>\<open>../utils/frontmatter\<close>; the converter
  takes it as the parameter \<open>fmt\<close>, applied to the entries of the frontmatter object and
  the body.
\<close>

definition convertCommandToSkill ::
  "((string \<times> string) list \<Rightarrow> string \<Rightarrow> string) \<Rightarrow> ClaudeCommand \<Rightarrow> string list \<Rightarrow> string list
     \<Rightarrow> KiroSkill \<times> string list" where
  "convertCommandToSkill fmt command usedNames knownAgentNames =
     (let rawName = normalizeName (command_name command);
          (name, usedNames') = uniqueName rawName usedNames;
          description = sanitizeDescription
            (case command_description command of
               Some d \<Rightarrow> d
             | None \<Rightarrow> ''Converted from Claude command '' @ command_name command)
            KIRO_DESCRIPTION_MAX_LENGTH;
          frontmatter = [(''name'', name), (''description'', description)];
          body = transformContentForKiro (trim (command_body command)) knownAgentNames;
          body = (if length body = 0
                  then ''Instructions converted from the '' @ command_name command @ '' command.''
                  else body);
          content = fmt frontmatter body
      in (\<lparr> kskill_name = name, kskill_content = content \<rparr>, usedNames'))"

text \<open>
  \<^verbatim>\<open>plugin.commands.map(...)\<close>: the commands in order, each call seeing the registry as
  the calls before it left it.
\<close>

fun convertCommands ::
  "((string \<times> string) list \<Rightarrow> string \<Rightarrow> string) \<Rightarrow> ClaudeCommand list \<Rightarrow> string list \<Rightarrow> string list
     \<Rightarrow> KiroSkill list \<times> string list" where
  "convertCommands fmt [] usedNames knownAgentNames = ([], usedNames)"
| "convertCommands fmt (command # rest) usedNames knownAgentNames =
     (let (skill, usedNames') = convertCommandToSkill fmt command usedNames knownAgentNames;
          (skills, usedNames'') = convertCommands fmt rest usedNames' knownAgentNames
      in (skill # skills, usedNames''))"

text \<open>
  The loop of \<^verbatim>\<open>convertMcpServers\<close> over \<^verbatim>\<open>Object.entries(servers)\<close>, with the
  result object and the printed messages so far. \<^verbatim>\<open>!server.command\<close> holds for a
  missing and for an empty command. The result object is the list of its own keys with their
  values. The assignment \<^verbatim>\<open>result[name] = entry\<close> sets the own key \<open>name\<close>, except
  for the name \<^verbatim>\<open>__proto__\<close>: there it runs the setter of \<^verbatim>\<open>Object.prototype\<close>, which
  makes \<open>entry\<close> the prototype of the result and leaves the own keys as they are. Own keys
  are all that \<^verbatim>\<open>Object.keys\<close>, a spread and \<^verbatim>\<open>JSON.stringify\<close> read of the result.
\<close>

definition assignKey ::
  "string \<Rightarrow> KiroMcpServer \<Rightarrow> (string \<times> KiroMcpServer) list \<Rightarrow> (string \<times> KiroMcpServer) list" where
  "assignKey name entry result =
     (if name = ''__proto__'' then result else AList.update name entry result)"

fun convertMcpEntries ::
  "(string \<times> ClaudeMcpServer) list \<Rightarrow> (string \<times> KiroMcpServer) list \<Rightarrow> msg list
     \<Rightarrow> (string \<times> KiroMcpServer) list \<times> msg list" where
  "convertMcpEntries [] result msgs = (result, msgs)"
| "convertMcpEntries ((name, server) # rest) result msgs =
     (case server_command server of
        None \<Rightarrow>
          convertMcpEntries rest result
            (msgs @ [Warn (''Warning: MCP server \"'' @ name
               @ ''\" has no command (HTTP/SSE transport). Kiro only supports stdio. Skipping.'')])
      | Some command \<Rightarrow>
          if command = [] then
            convertMcpEntries rest result
              (msgs @ [Warn (''Warning: MCP server \"'' @ name
                 @ ''\" has no command (HTTP/SSE transport). Kiro only supports stdio. Skipping.'')])
          else
            (let entry = \<lparr> mcp_command = command,
                           mcp_args = (case server_args server of
                                         Some a \<Rightarrow> if length a > 0 then Some a else None
                                       | None \<Rightarrow> None),
                           mcp_env = (case server_env server of
                                        Some e \<Rightarrow> if length e > 0 then Some e else None
                                      | None \<Rightarrow> None) \<rparr>
             in convertMcpEntries rest (assignKey name entry result)
                  (msgs @ [Log (''MCP server \"'' @ name @ ''\" will execute: '' @ command
                     @ (case server_args server of
                          Some a \<Rightarrow> '' '' @ joinWith '' '' a
                        | None \<Rightarrow> []))])))"

definition convertMcpServers ::
  "(string \<times> ClaudeMcpServer) list option \<Rightarrow> (string \<times> KiroMcpServer) list \<times> msg list" where
  "convertMcpServers servers =
     (case servers of
        None \<Rightarrow> ([], [])
      | Some entries \<Rightarrow> if length entries = 0 then ([], []) else convertMcpEntries entries [] [])"

text \<open>
  \<^verbatim>\<open>buildSteeringFiles\<close> reads \<^verbatim>\<open>CLAUDE.md\<close> under the plugin root. \<open>claudeMd\<close> is
  the content of that file, or \<open>None\<close> when the file does not exist or cannot be read.
\<close>

definition buildSteeringFiles :: "string option \<Rightarrow> string list \<Rightarrow> KiroSteeringFile list" where
  "buildSteeringFiles claudeMd knownAgentNames =
     (case claudeMd of
        None \<Rightarrow> []
      | Some content \<Rightarrow>
          if content = [] \<or> length (trim content) = 0 then []
          else [\<lparr> steering_name = ''compound-engineering'',
                   steering_content = transformContentForKiro content knownAgentNames \<rparr>])"

text \<open>The first loop of \<^verbatim>\<open>convertClaudeToKiro\<close>: the registry after the pass-through
  skills.\<close>

definition reserveSkillNames :: "KiroSkillDir list \<Rightarrow> string list" where
  "reserveSkillNames dirs =
     foldl (\<lambda>usedSkillNames skill. setAdd (normalizeName (kdir_name skill)) usedSkillNames)
           [] dirs"

definition convertClaudeToKiro ::
  "((string \<times> string) list \<Rightarrow> string \<Rightarrow> string) \<Rightarrow> string option \<Rightarrow> ClaudePlugin
     \<Rightarrow> KiroBundle \<times> msg list" where
  "convertClaudeToKiro fmt claudeMd plugin =
     (let dirs = map (\<lambda>skill. \<lparr> kdir_name = skill_name skill,
                                 kdir_sourceDir = skill_sourceDir skill \<rparr>)
                     (plugin_skills plugin);
          usedSkillNames = reserveSkillNames dirs;
          agentNames = map (\<lambda>a. normalizeName (agent_name a)) (plugin_agents plugin);
          kagents = map (\<lambda>agent. convertAgentToKiroAgent agent agentNames) (plugin_agents plugin);
          (skills, usedSkillNames') =
             convertCommands fmt (plugin_commands plugin) usedSkillNames agentNames;
          (servers, msgs) = convertMcpServers (plugin_mcpServers plugin);
          steering = buildSteeringFiles claudeMd agentNames;
          msgs = (case plugin_hooks plugin of
                    None \<Rightarrow> msgs
                  | Some keys \<Rightarrow>
                      if length keys > 0
                      then msgs @ [Warn (''Warning: Kiro CLI hooks use a different format ''
                             @ ''(preToolUse/postToolUse inside agent configs). ''
                             @ ''Hooks were skipped during conversion.'')]
                      else msgs)
      in (\<lparr> agents = kagents, generatedSkills = skills, skillDirs = dirs,
             steeringFiles = steering, mcpServers = servers \<rparr>, msgs))"

section \<open>Bundle writer\<close>

text \<open>
  A path is the list of the arguments given to \<^verbatim>\<open>path.join\<close>, in order. The helpers
  of \<^verbatim>\<open>../utils/files\<close> are taken to succeed; each call is recorded, in order, as an
  operation on the file system.
\<close>

type_synonym path = "string list"

datatype json =
    JNull
  | JBool bool
  | JNum int
  | JStr string
  | JArr "json list"
  | JObj "(string \<times> json) list"

datatype fsop =
    EnsureDir path
  | WriteAgentJson path KiroAgentConfig
  | WriteText path string
  | CopyDir string path
  | BackupFile path
  | WriteJson path json

type_synonym wstate = "fsop list \<times> msg list"

record KiroPaths =
  kiroDir :: path
  agentsDir :: path
  skillsDir :: path
  steeringDir :: path
  settingsDir :: path

text \<open>\<^verbatim>\<open>path.basename(outputRoot)\<close> is the last segment of the output root.\<close>

definition resolveKiroPaths :: "path \<Rightarrow> KiroPaths" where
  "resolveKiroPaths outputRoot =
     (let dir = (if outputRoot \<noteq> [] \<and> last outputRoot = ''.kiro'' then outputRoot
                 else outputRoot @ [''.kiro''])
      in \<lparr> kiroDir = dir, agentsDir = dir @ [''agents''], skillsDir = dir @ [''skills''],
            steeringDir = dir @ [''steering''], settingsDir = dir @ [''settings''] \<rparr>)"

text \<open>\<^verbatim>\<open>validatePathSafe\<close>: \<open>Some\<close> is the message of the error it throws.\<close>

definition validatePathSafe :: "string \<Rightarrow> string \<Rightarrow> string option" where
  "validatePathSafe name label =
     (if includesStr name ''..'' \<or> includesStr name ''/'' \<or> includesStr name [CHR 0x5C]
      then Some (label @ '' name contains unsafe path characters: '' @ name)
      else None)"

text \<open>
  Each loop of the writer returns \<open>Inr\<close> with the operations and messages so far, or
  \<open>Inl\<close> with the thrown message and the operations and messages at the throw.
\<close>

fun writeAgents :: "KiroPaths \<Rightarrow> KiroAgent list \<Rightarrow> wstate \<Rightarrow> (string \<times> wstate) + wstate" where
  "writeAgents paths [] st = Inr st"
| "writeAgents paths (agent # rest) (ops, msgs) =
     (case validatePathSafe (kagent_name agent) ''agent'' of
        Some err \<Rightarrow> Inl (err, (ops, msgs))
      | None \<Rightarrow>
          writeAgents paths rest
            (ops @ [WriteAgentJson (agentsDir paths @ [kagent_name agent @ ''.json''])
                      (kagent_config agent),
                    WriteText (agentsDir paths @ [''prompts'', kagent_name agent @ ''.md''])
                      (kagent_promptContent agent @ newline)],
             msgs))"

fun writeGeneratedSkills ::
  "KiroPaths \<Rightarrow> KiroSkill list \<Rightarrow> wstate \<Rightarrow> (string \<times> wstate) + wstate" where
  "writeGeneratedSkills paths [] st = Inr st"
| "writeGeneratedSkills paths (skill # rest) (ops, msgs) =
     (case validatePathSafe (kskill_name skill) ''skill'' of
        Some err \<Rightarrow> Inl (err, (ops, msgs))
      | None \<Rightarrow>
          writeGeneratedSkills paths rest
            (ops @ [WriteText (skillsDir paths @ [kskill_name skill, ''SKILL.md''])
                      (kskill_content skill @ newline)],
             msgs))"

text \<open>
  \<open>resolve\<close> is \<^verbatim>\<open>path.resolve\<close>, a parameter of the writer.
\<close>

fun writeSkillDirs ::
  "(path \<Rightarrow> string) \<Rightarrow> KiroPaths \<Rightarrow> KiroSkillDir list \<Rightarrow> wstate \<Rightarrow> (string \<times> wstate) + wstate" where
  "writeSkillDirs resolve paths [] st = Inr st"
| "writeSkillDirs resolve paths (skill # rest) (ops, msgs) =
     (case validatePathSafe (kdir_name skill) ''skill directory'' of
        Some err \<Rightarrow> Inl (err, (ops, msgs))
      | None \<Rightarrow>
          (let destDir = skillsDir paths @ [kdir_name skill];
               resolvedDest = resolve destDir
           in if \<not> startsWith resolvedDest (resolve (skillsDir paths))
              then writeSkillDirs resolve paths rest
                     (ops, msgs @ [Warn (''Warning: Skill name \"'' @ kdir_name skill
                                    @ ''\" escapes .kiro/skills/. Skipping.'')])
              else writeSkillDirs resolve paths rest
                     (ops @ [CopyDir (kdir_sourceDir skill) destDir], msgs)))"

fun writeSteeringFiles ::
  "KiroPaths \<Rightarrow> KiroSteeringFile list \<Rightarrow> wstate \<Rightarrow> (string \<times> wstate) + wstate" where
  "writeSteeringFiles paths [] st = Inr st"
| "writeSteeringFiles paths (file # rest) (ops, msgs) =
     (case validatePathSafe (steering_name file) ''steering file'' of
        Some err \<Rightarrow> Inl (err, (ops, msgs))
      | None \<Rightarrow>
          writeSteeringFiles paths rest
            (ops @ [WriteText (steeringDir paths @ [steering_name file @ ''.md''])
                      (steering_content file @ newline)],
             msgs))"

subsection \<open>The settings file\<close>

text \<open>
  The file \<^verbatim>\<open>mcp.json\<close> before the write: missing, present with text that
  \<^verbatim>\<open>readJson\<close> cannot parse, or present with an object, as the type
  \<^verbatim>\<open>Record<string, unknown>\<close> given to \<^verbatim>\<open>readJson\<close> says. An object is the list of its
  entries; \<^verbatim>\<open>{...a, ...b}\<close> takes the entries of \<open>a\<close> and then sets each entry of \<open>b\<close>.
\<close>

datatype existingFile = NoFile | Unparseable | Parsed "(string \<times> json) list"

definition spread :: "(string \<times> json) list \<Rightarrow> (string \<times> json) list \<Rightarrow> (string \<times> json) list" where
  "spread a b = foldl (\<lambda>obj (k, v). AList.update k v obj) a b"

text \<open>A server entry of the bundle as the object it is.\<close>

definition mcpServerJson :: "KiroMcpServer \<Rightarrow> json" where
  "mcpServerJson server =
     JObj ([(''command'', JStr (mcp_command server))]
           @ (case mcp_args server of
                None \<Rightarrow> []
              | Some a \<Rightarrow> [(''args'', JArr (map JStr a))])
           @ (case mcp_env server of
                None \<Rightarrow> []
              | Some e \<Rightarrow> [(''env'', JObj (map (\<lambda>(k, v). (k, JStr v)) e))]))"

text \<open>
  \<^verbatim>\<open>existingConfig.mcpServers && typeof existingConfig.mcpServers === "object"\<close> holds for
  an object and for an array, whose entries under a spread are its elements under their
  indices.
\<close>

definition existingServersOf :: "(string \<times> json) list \<Rightarrow> (string \<times> json) list" where
  "existingServersOf existingConfig =
     (case map_of existingConfig ''mcpServers'' of
        Some (JObj entries) \<Rightarrow> entries
      | Some (JArr elems) \<Rightarrow> zip (map showNat [0 ..< length elems]) elems
      | _ \<Rightarrow> [])"

definition mergeMcpConfig ::
  "(string \<times> json) list \<Rightarrow> (string \<times> KiroMcpServer) list \<Rightarrow> (string \<times> json) list" where
  "mergeMcpConfig existingConfig servers =
     AList.update ''mcpServers''
       (JObj (spread (existingServersOf existingConfig)
                (map (\<lambda>(name, server). (name, mcpServerJson server)) servers)))
       existingConfig"

text \<open>
  \<open>backupPath\<close> is the path that \<^verbatim>\<open>backupFile\<close> returns for an existing file.
\<close>

definition writeMcpServers ::
  "existingFile \<Rightarrow> string \<Rightarrow> KiroPaths \<Rightarrow> (string \<times> KiroMcpServer) list \<Rightarrow> wstate \<Rightarrow> wstate" where
  "writeMcpServers existing backupPath paths servers st =
     (if length servers > 0 then
        (let (ops, msgs) = st;
             mcpPath = settingsDir paths @ [''mcp.json''];
             (ops, msgs) =
               (if existing \<noteq> NoFile
                then (ops @ [BackupFile mcpPath],
                      msgs @ [Log (''Backed up existing mcp.json to '' @ backupPath)])
                else (ops, msgs));
             (existingConfig, msgs) =
               (case existing of
                  NoFile \<Rightarrow> ([], msgs)
                | Unparseable \<Rightarrow>
                    ([], msgs @ [Warn (''Warning: existing mcp.json could not be parsed ''
                                       @ ''and will be replaced.'')])
                | Parsed config \<Rightarrow> (config, msgs));
             merged = mergeMcpConfig existingConfig servers
         in (ops @ [WriteJson mcpPath (JObj merged)], msgs))
      else st)"

definition writeKiroBundle ::
  "(path \<Rightarrow> string) \<Rightarrow> existingFile \<Rightarrow> string \<Rightarrow> path \<Rightarrow> KiroBundle \<Rightarrow> (string \<times> wstate) + wstate" where
  "writeKiroBundle resolve existing backupPath outputRoot bundle =
     (let paths = resolveKiroPaths outputRoot
      in case writeAgents paths (agents bundle) ([EnsureDir (kiroDir paths)], []) of
           Inl e \<Rightarrow> Inl e
         | Inr st1 \<Rightarrow>
             (case writeGeneratedSkills paths (generatedSkills bundle) st1 of
                Inl e \<Rightarrow> Inl e
              | Inr st2 \<Rightarrow>
                  (case writeSkillDirs resolve paths (skillDirs bundle) st2 of
                     Inl e \<Rightarrow> Inl e
                   | Inr st3 \<Rightarrow>
                       (case writeSteeringFiles paths (steeringFiles bundle) st3 of
                          Inl e \<Rightarrow> Inl e
                        | Inr st4 \<Rightarrow>
                            Inr (writeMcpServers existing backupPath paths
                                   (mcpServers bundle) st4)))))"

section \<open>Example inputs\<close>

text \<open>Concrete inputs at which the theorems below are evaluated.\<close>

definition longHyphenated :: string where
  "longHyphenated = ''aaaaaaaaaaaaaaaaaaaaaaaaaaaaaaaaaaaaaaaaaaaaaaaaaaaaaaaaaa bbbbbbbbbbbbbbbbbbbbbbbbbbbbbbbbbbbbbbbbbbbbb''"

definition longWord :: string where
  "longWord = ''aaaaaaaaaaaaaaaaaaaaaaaaaaaaaaaaaaaaaaaaaaaaaaaaaaaaaaaaaaaaaaaaaaaaaa''"


text \<open>A stand-in for \<^verbatim>\<open>formatFrontmatter\<close> that returns the body alone.\<close>

definition bodyOnly :: "(string \<times> string) list \<Rightarrow> string \<Rightarrow> string" where
  "bodyOnly frontmatter body = body"

text \<open>A plugin with two agents whose names differ only in case and separator, two commands
  and one pass-through skill that all normalize to the same name.\<close>

definition examplePlugin :: ClaudePlugin where
  "examplePlugin =
     \<lparr> plugin_root = ''/plugin'',
       plugin_agents =
         [\<lparr> agent_name = ''Code Reviewer'', agent_description = None,
            agent_capabilities = Some [''Run /plan''], agent_body = ''x'' \<rparr>,
          \<lparr> agent_name = ''code-reviewer'', agent_description = Some ''second'',
            agent_capabilities = None, agent_body = [] \<rparr>],
       plugin_commands =
         [\<lparr> command_name = ''doc writer'', command_description = None, command_body = ''a'' \<rparr>,
          \<lparr> command_name = ''Doc:Writer'', command_description = None, command_body = ''b'' \<rparr>],
       plugin_skills = [\<lparr> skill_name = ''Doc Writer'', skill_sourceDir = ''skills/doc'' \<rparr>],
       plugin_mcpServers = None,
       plugin_hooks = None \<rparr>"


text \<open>An agent with one capability that holds a slash command reference.\<close>

definition capableAgent :: ClaudeAgent where
  "capableAgent = \<lparr> agent_name = ''Code Reviewer'', agent_description = None,
            agent_capabilities = Some [''Run /plan''], agent_body = ''x'' \<rparr>"


text \<open>A server without a command, and one with a command, an empty argument list and an
  environment.\<close>

definition exampleServers :: "(string \<times> ClaudeMcpServer) list" where
  "exampleServers =
     [(''remote'', \<lparr> server_command = None, server_args = None, server_env = None \<rparr>),
      (''local'', \<lparr> server_command = Some ''npx'', server_args = Some [],
                    server_env = Some [(''KEY'', ''v'')] \<rparr>)]"


text \<open>A bundle whose second generated skill has a name that leaves the skills directory,
  with records of every kind behind it.\<close>

definition abortedBundle :: KiroBundle where
  "abortedBundle =
     \<lparr> agents = [],
       generatedSkills = [\<lparr> kskill_name = ''plan'', kskill_content = ''c'' \<rparr>,
                          \<lparr> kskill_name = ''../evil'', kskill_content = ''e'' \<rparr>,
                          \<lparr> kskill_name = ''late'', kskill_content = ''l'' \<rparr>],
       skillDirs = [\<lparr> kdir_name = ''docs'', kdir_sourceDir = ''src/docs'' \<rparr>],
       steeringFiles = [\<lparr> steering_name = ''guide'', steering_content = ''t'' \<rparr>],
       mcpServers = [(''local'', \<lparr> mcp_command = ''npx'', mcp_args = None, mcp_env = None \<rparr>)] \<rparr>"


text \<open>A plugin with a pass-through skill whose name is its own normalized form and two
  commands that normalize to it.\<close>

definition planPlugin :: ClaudePlugin where
  "planPlugin =
     \<lparr> plugin_root = ''/plugin'',
       plugin_agents = [],
       plugin_commands =
         [\<lparr> command_name = ''Plan'', command_description = None, command_body = ''a'' \<rparr>,
          \<lparr> command_name = ''plan'', command_description = None, command_body = ''b'' \<rparr>],
       plugin_skills = [\<lparr> skill_name = ''plan'', skill_sourceDir = ''skills/plan'' \<rparr>],
       plugin_mcpServers = None,
       plugin_hooks = None \<rparr>"


text \<open>A bundle with two servers, and a settings file with two other keys, an existing
  server and a server of the same name as one of the bundle.\<close>

definition settingsBundle :: KiroBundle where
  "settingsBundle =
     \<lparr> agents = [], generatedSkills = [], skillDirs = [], steeringFiles = [],
       mcpServers =
         [(''b'', \<lparr> mcp_command = ''npx'', mcp_args = Some [''-y'', ''pkg''], mcp_env = None \<rparr>),
          (''new'', \<lparr> mcp_command = ''node'', mcp_args = None, mcp_env = None \<rparr>)] \<rparr>"

definition settingsFile :: existingFile where
  "settingsFile =
     Parsed [(''theme'', JStr ''dark''),
             (''mcpServers'', JObj [(''old'', JObj [(''command'', JStr ''uvx'')]), (''b'', JNull)]),
             (''version'', JNum 2)]"





section \<open>Predicates used in the proofs\<close>

text \<open>No two hyphens in a row.\<close>

fun noDoubleHyphen :: "string \<Rightarrow> bool" where
  "noDoubleHyphen (a # b # s) = (\<not> (isHyphen a \<and> isHyphen b) \<and> noDoubleHyphen (b # s))"
| "noDoubleHyphen s = True"

text \<open>A name that \<open>uniqueName\<close> can return for a base: the base, or the base with a suffix
  \<open>-2\<close>, \<open>-3\<close>, ...\<close>

definition suffixedFrom :: "string \<Rightarrow> string \<Rightarrow> bool" where
  "suffixedFrom base n = (n = base \<or> (\<exists>i\<ge>2. n = suffixed base i))"

text \<open>The warnings among the printed messages; a server that \<open>convertMcpServers\<close> skips,
  the entry it builds for any other server, and the warning for a skipped server.\<close>

fun isWarn :: "msg \<Rightarrow> bool" where
  "isWarn (Warn text) = True"
| "isWarn (Log text) = False"

definition lacksCommand :: "ClaudeMcpServer \<Rightarrow> bool" where
  "lacksCommand server = (server_command server = None \<or> server_command server = Some [])"

definition kiroEntryOf :: "ClaudeMcpServer \<Rightarrow> KiroMcpServer" where
  "kiroEntryOf server =
     \<lparr> mcp_command = the (server_command server),
       mcp_args = (if server_args server = Some [] then None else server_args server),
       mcp_env = (if server_env server = Some [] then None else server_env server) \<rparr>"

definition skipWarning :: "string \<Rightarrow> msg" where
  "skipWarning name =
     Warn (''Warning: MCP server \"'' @ name
           @ ''\" has no command (HTTP/SSE transport). Kiro only supports stdio. Skipping.'')"


text \<open>
  An identifier that \<open>validatePathSafe\<close> rejects; an operation on a file of the record with
  a given identifier, by the last segments of its path; an operation on the settings file;
  and a list of operations none of which is on the settings file or on a file of a record
  with a rejected identifier.
\<close>

definition unsafeName :: "string \<Rightarrow> bool" where
  "unsafeName n = (includesStr n ''..'' \<or> includesStr n ''/'' \<or> includesStr n [CHR 0x5C])"

fun recordFile :: "string \<Rightarrow> fsop \<Rightarrow> bool" where
  "recordFile n (WriteAgentJson p c) = (p \<noteq> [] \<and> last p = n @ ''.json'')"
| "recordFile n (WriteText p t) =
     (p \<noteq> [] \<and> (last p = n @ ''.md''
                \<or> (last p = ''SKILL.md'' \<and> butlast p \<noteq> [] \<and> last (butlast p) = n)))"
| "recordFile n (CopyDir src p) = (p \<noteq> [] \<and> last p = n)"
| "recordFile n (EnsureDir p) = False"
| "recordFile n (BackupFile p) = False"
| "recordFile n (WriteJson p j) = False"

fun isSettingsOp :: "fsop \<Rightarrow> bool" where
  "isSettingsOp (BackupFile p) = True"
| "isSettingsOp (WriteJson p j) = True"
| "isSettingsOp (EnsureDir p) = False"
| "isSettingsOp (WriteAgentJson p c) = False"
| "isSettingsOp (WriteText p t) = False"
| "isSettingsOp (CopyDir src p) = False"

definition cleanOps :: "fsop list \<Rightarrow> bool" where
  "cleanOps ops = (\<forall>op\<in>set ops. \<not> isSettingsOp op \<and> (\<forall>n. unsafeName n \<longrightarrow> \<not> recordFile n op))"


text \<open>The state a loop of the writer ends in, by throwing or not.\<close>

fun finalOps :: "(string \<times> wstate) + wstate \<Rightarrow> fsop list" where
  "finalOps (Inl (err, (ops, msgs))) = ops"
| "finalOps (Inr (ops, msgs)) = ops"


text \<open>The warning for a skill directory that is skipped.\<close>

definition escapeWarning :: "string \<Rightarrow> msg" where
  "escapeWarning name =
     Warn (''Warning: Skill name \"'' @ name @ ''\" escapes .kiro/skills/. Skipping.'')"


text \<open>
  What the writer does for one record of each kind: the two files of an agent, the file of a
  generated skill, the file of a steering file, and the copy of a skill directory; and the
  test of the writer that the resolved destination of a skill directory starts with the
  resolved skills directory.
\<close>

definition agentOps :: "KiroPaths \<Rightarrow> KiroAgent \<Rightarrow> fsop list" where
  "agentOps paths agent =
     [WriteAgentJson (agentsDir paths @ [kagent_name agent @ ''.json'']) (kagent_config agent),
      WriteText (agentsDir paths @ [''prompts'', kagent_name agent @ ''.md''])
        (kagent_promptContent agent @ newline)]"

definition skillOp :: "KiroPaths \<Rightarrow> KiroSkill \<Rightarrow> fsop" where
  "skillOp paths skill =
     WriteText (skillsDir paths @ [kskill_name skill, ''SKILL.md'']) (kskill_content skill @ newline)"

definition steeringOp :: "KiroPaths \<Rightarrow> KiroSteeringFile \<Rightarrow> fsop" where
  "steeringOp paths file =
     WriteText (steeringDir paths @ [steering_name file @ ''.md'']) (steering_content file @ newline)"

definition inside :: "(path \<Rightarrow> string) \<Rightarrow> KiroPaths \<Rightarrow> string \<Rightarrow> bool" where
  "inside resolve paths name =
     startsWith (resolve (skillsDir paths @ [name])) (resolve (skillsDir paths))"

definition copyOp :: "KiroPaths \<Rightarrow> KiroSkillDir \<Rightarrow> fsop" where
  "copyOp paths skill = CopyDir (kdir_sourceDir skill) (skillsDir paths @ [kdir_name skill])"


text \<open>
  The bundle cut off before its first record with a rejected identifier, in the order of the
  writer: agents, generated skills, skill directories, steering files, and then the servers.
\<close>

definition beforeUnsafe :: "KiroBundle \<Rightarrow> KiroBundle" where
  "beforeUnsafe bundle =
     (if \<exists>a\<in>set (agents bundle). unsafeName (kagent_name a) then
        \<lparr> agents = takeWhile (\<lambda>a. \<not> unsafeName (kagent_name a)) (agents bundle),
          generatedSkills = [], skillDirs = [], steeringFiles = [], mcpServers = [] \<rparr>
      else if \<exists>s\<in>set (generatedSkills bundle). unsafeName (kskill_name s) then
        \<lparr> agents = agents bundle,
          generatedSkills = takeWhile (\<lambda>s. \<not> unsafeName (kskill_name s)) (generatedSkills bundle),
          skillDirs = [], steeringFiles = [], mcpServers = [] \<rparr>
      else if \<exists>d\<in>set (skillDirs bundle). unsafeName (kdir_name d) then
        \<lparr> agents = agents bundle, generatedSkills = generatedSkills bundle,
          skillDirs = takeWhile (\<lambda>d. \<not> unsafeName (kdir_name d)) (skillDirs bundle),
          steeringFiles = [], mcpServers = [] \<rparr>
      else if \<exists>f\<in>set (steeringFiles bundle). unsafeName (steering_name f) then
        \<lparr> agents = agents bundle, generatedSkills = generatedSkills bundle,
          skillDirs = skillDirs bundle,
          steeringFiles = takeWhile (\<lambda>f. \<not> unsafeName (steering_name f)) (steeringFiles bundle),
          mcpServers = [] \<rparr>
      else bundle)"


text \<open>
  The copies among the operations; and the paths of the files named \<^verbatim>\<open>SKILL.md\<close> that
  the operations write, in order.
\<close>

fun isCopyDir :: "fsop \<Rightarrow> bool" where
  "isCopyDir (CopyDir src p) = True"
| "isCopyDir (EnsureDir p) = False"
| "isCopyDir (WriteAgentJson p c) = False"
| "isCopyDir (WriteText p t) = False"
| "isCopyDir (BackupFile p) = False"
| "isCopyDir (WriteJson p j) = False"

fun skillFile :: "fsop \<Rightarrow> path list" where
  "skillFile (WriteText p t) = (if p \<noteq> [] \<and> last p = ''SKILL.md'' then [p] else [])"
| "skillFile (EnsureDir p) = []"
| "skillFile (WriteAgentJson p c) = []"
| "skillFile (CopyDir src p) = []"
| "skillFile (BackupFile p) = []"
| "skillFile (WriteJson p j) = []"

definition skillFiles :: "fsop list \<Rightarrow> path list" where
  "skillFiles ops = concat (map skillFile ops)"


text \<open>The configuration that the writer merges into: that of a parsed file, and the empty
  object otherwise.\<close>

definition parsedConfig :: "existingFile \<Rightarrow> (string \<times> json) list" where
  "parsedConfig existing =
     (case existing of NoFile \<Rightarrow> [] | Unparseable \<Rightarrow> [] | Parsed config \<Rightarrow> config)"












section \<open>Properties of the name normalizer\<close>

lemma replaceRuns_set:
  "set (replaceRuns C r s) \<subseteq> set r \<union> {c \<in> set s. \<not> C c}"
proof (induction C r s rule: replaceRuns.induct)
  case (1 C r)
  show ?case by simp
next
  case (2 C r x xs)
  show ?case
  proof (cases "C x")
    case True
    have "set (dropWhile C xs) \<subseteq> set xs" by (auto dest: set_dropWhileD)
    with 2(1)[OF True] True show ?thesis by auto
  next
    case False
    with 2(2)[OF False] show ?thesis by auto
  qed
qed

lemma stripTrailingHyphens_set: "set (stripTrailingHyphens s) \<subseteq> set s"
  unfolding stripTrailingHyphens_def by (auto dest: set_dropWhileD)

lemma stripHyphens_set: "set (stripHyphens s) \<subseteq> set s"
  unfolding stripHyphens_def using stripTrailingHyphens_set[of "dropWhile isHyphen s"]
  by (auto dest: set_dropWhileD)

lemma isNameChar_hyphen: "isNameChar (CHR ''-'')"
  by (simp add: isNameChar_def)

lemma normalizeChain_chars: "c \<in> set (normalizeChain t) \<Longrightarrow> isNameChar c"
proof -
  assume c: "c \<in> set (normalizeChain t)"
  define x3 where "x3 = replaceRuns (\<lambda>c. c = CHR '':'' \<or> isSpace c) ''-''
             (replaceRuns (\<lambda>c. c = CHR 0x5C \<or> c = CHR ''/'') ''-'' (toLowerCase t))"
  have "c \<in> set (replaceRuns isHyphen ''-'' (replaceRuns (\<lambda>c. \<not> isNameChar c) ''-'' x3))"
    using c stripHyphens_set unfolding normalizeChain_def x3_def by blast
  then have "c = CHR ''-'' \<or> c \<in> set (replaceRuns (\<lambda>c. \<not> isNameChar c) ''-'' x3)"
    using replaceRuns_set[of isHyphen "''-''"] by auto
  then have "c = CHR ''-'' \<or> isNameChar c"
    using replaceRuns_set[of "\<lambda>c. \<not> isNameChar c" "''-''" x3] by auto
  then show ?thesis using isNameChar_hyphen by auto
qed

lemma enforceMaxLength_set: "set (enforceMaxLength n) \<subseteq> set n"
proof -
  have "set (stripTrailingHyphens (take a (take b n))) \<subseteq> set n" for a b
    using stripTrailingHyphens_set[of "take a (take b n)"] by (auto dest: in_set_takeD)
  moreover have "set (stripTrailingHyphens (take b n)) \<subseteq> set n" for b
    using stripTrailingHyphens_set[of "take b n"] by (auto dest: in_set_takeD)
  ultimately show ?thesis unfolding enforceMaxLength_def Let_def by auto
qed

lemma item_chars: "c \<in> set ''item'' \<Longrightarrow> isNameChar c"
  by (auto simp: isNameChar_def isLowerAlpha_def code_def)

lemma normalizeName_chars: "c \<in> set (normalizeName x) \<Longrightarrow> isNameChar c"
  unfolding normalizeName_def Let_def
  using enforceMaxLength_set normalizeChain_chars item_chars
  by (auto split: if_splits)

lemma stripTrailingHyphens_length: "length (stripTrailingHyphens s) \<le> length s"
  unfolding stripTrailingHyphens_def by (simp add: length_dropWhile_le order_trans[OF length_dropWhile_le])

lemma stripTrailingHyphens_last:
  "stripTrailingHyphens s \<noteq> [] \<Longrightarrow> last (stripTrailingHyphens s) \<noteq> CHR ''-''"
  unfolding stripTrailingHyphens_def
  using hd_dropWhile[of isHyphen "rev s"] by (simp add: last_rev isHyphen_def)

lemma enforceMaxLength_length: "length (enforceMaxLength n) \<le> KIRO_SKILL_NAME_MAX_LENGTH"
proof (cases "length n > KIRO_SKILL_NAME_MAX_LENGTH")
  case True
  have "length (stripTrailingHyphens (take a (take KIRO_SKILL_NAME_MAX_LENGTH n))) \<le> KIRO_SKILL_NAME_MAX_LENGTH" for a
    using stripTrailingHyphens_length[of "take a (take KIRO_SKILL_NAME_MAX_LENGTH n)"] by simp
  moreover have "length (stripTrailingHyphens (take KIRO_SKILL_NAME_MAX_LENGTH n)) \<le> KIRO_SKILL_NAME_MAX_LENGTH"
    using stripTrailingHyphens_length[of "take KIRO_SKILL_NAME_MAX_LENGTH n"] by simp
  ultimately show ?thesis using True unfolding enforceMaxLength_def Let_def by auto
next
  case False
  then show ?thesis unfolding enforceMaxLength_def by simp
qed

lemma stripHyphens_last: "stripHyphens s \<noteq> [] \<Longrightarrow> last (stripHyphens s) \<noteq> CHR ''-''"
  unfolding stripHyphens_def by (rule stripTrailingHyphens_last)

lemma enforceMaxLength_last:
  assumes "n = [] \<or> last n \<noteq> CHR ''-''" and "enforceMaxLength n \<noteq> []"
  shows "last (enforceMaxLength n) \<noteq> CHR ''-''"
  using assms stripTrailingHyphens_last unfolding enforceMaxLength_def Let_def
  by (auto split: if_splits)

lemma normalizeName_length: "length (normalizeName x) \<le> 64"
  unfolding normalizeName_def Let_def
  using enforceMaxLength_length[of "normalizeChain (trim x)"]
  by (auto simp: KIRO_SKILL_NAME_MAX_LENGTH_def)

lemma normalizeName_nonempty: "normalizeName x \<noteq> []"
  unfolding normalizeName_def Let_def by auto

lemma normalizeName_last: "last (normalizeName x) \<noteq> CHR ''-''"
proof -
  have "normalizeChain t = [] \<or> last (normalizeChain t) \<noteq> CHR ''-''" for t
    unfolding normalizeChain_def using stripHyphens_last by blast
  from enforceMaxLength_last[OF this] show ?thesis
    unfolding normalizeName_def Let_def by auto
qed

lemma normalizeName_starts: "startsWithLowerAlpha (normalizeName x)"
  unfolding normalizeName_def Let_def by (auto simp: isLowerAlpha_def code_def)

lemma noDoubleHyphen_Cons: "\<not> isHyphen a \<Longrightarrow> noDoubleHyphen (a # s) = noDoubleHyphen s"
  by (cases s) auto

lemma replaceRuns_head:
  "replaceRuns C r (dropWhile C xs) = [] \<or> \<not> C (hd (replaceRuns C r (dropWhile C xs)))"
proof (cases "dropWhile C xs")
  case Nil
  then show ?thesis by (simp del: dropWhile_eq_Nil_conv)
next
  case (Cons d ds)
  then have "\<not> C d" using hd_dropWhile[of C xs] by auto
  with Cons show ?thesis by simp
qed

lemma replaceRuns_noDoubleHyphen: "noDoubleHyphen (replaceRuns isHyphen ''-'' s)"
proof (induction isHyphen "''-''" s rule: replaceRuns.induct)
  case 1
  show ?case by simp
next
  case (2 x xs)
  show ?case
  proof (cases "isHyphen x")
    case True
    let ?Y = "replaceRuns isHyphen ''-'' (dropWhile isHyphen xs)"
    have nd: "noDoubleHyphen ?Y" using 2(1)[OF True] .
    have "?Y = [] \<or> \<not> isHyphen (hd ?Y)" by (rule replaceRuns_head)
    then have "noDoubleHyphen (CHR ''-'' # ?Y)" using nd by (cases ?Y) auto
    with True show ?thesis by simp
  next
    case False
    with 2(2)[OF False] show ?thesis by (simp add: noDoubleHyphen_Cons)
  qed
qed

lemma noDoubleHyphen_append2: "noDoubleHyphen (a @ b) \<Longrightarrow> noDoubleHyphen b"
proof (induction a)
  case Nil
  then show ?case by simp
next
  case (Cons x a)
  then have "noDoubleHyphen (a @ b)" by (cases "a @ b") auto
  with Cons show ?case by simp
qed

lemma noDoubleHyphen_append1: "noDoubleHyphen (a @ b) \<Longrightarrow> noDoubleHyphen a"
proof (induction a rule: noDoubleHyphen.induct)
  case (1 x y s)
  then show ?case by simp
qed simp_all

lemma noDoubleHyphen_nth:
  "noDoubleHyphen s \<Longrightarrow> Suc i < length s \<Longrightarrow> \<not> (isHyphen (s ! i) \<and> isHyphen (s ! Suc i))"
proof (induction s arbitrary: i rule: noDoubleHyphen.induct)
  case (1 a b s)
  then show ?case by (cases i) auto
qed simp_all

lemma stripTrailingHyphens_split:
  "s = stripTrailingHyphens s @ rev (takeWhile isHyphen (rev s))"
proof -
  have "rev s = takeWhile isHyphen (rev s) @ dropWhile isHyphen (rev s)" by simp
  then have "rev (rev s) = rev (takeWhile isHyphen (rev s) @ dropWhile isHyphen (rev s))"
    by simp
  then show ?thesis unfolding stripTrailingHyphens_def by (simp del: takeWhile_dropWhile_id)
qed

lemma stripHyphens_noDoubleHyphen:
  assumes "noDoubleHyphen s"
  shows "noDoubleHyphen (stripHyphens s)"
proof -
  have "s = takeWhile isHyphen s @ dropWhile isHyphen s" by simp
  with assms have "noDoubleHyphen (dropWhile isHyphen s)"
    using noDoubleHyphen_append2[of "takeWhile isHyphen s" "dropWhile isHyphen s"] by simp
  then have "noDoubleHyphen (stripTrailingHyphens (dropWhile isHyphen s)
      @ rev (takeWhile isHyphen (rev (dropWhile isHyphen s))))"
    using stripTrailingHyphens_split[of "dropWhile isHyphen s"] by simp
  then show ?thesis unfolding stripHyphens_def by (rule noDoubleHyphen_append1)
qed

lemma normalizeChain_noDoubleHyphen: "noDoubleHyphen (normalizeChain t)"
  unfolding normalizeChain_def
  by (rule stripHyphens_noDoubleHyphen) (rule replaceRuns_noDoubleHyphen)

lemma stripTrailingHyphens_prefix: "\<exists>m. stripTrailingHyphens s = take m s"
proof -
  have "take (length (stripTrailingHyphens s)) s = stripTrailingHyphens s"
    using stripTrailingHyphens_split[of s]
    by (metis append_eq_conv_conj)
  then show ?thesis by metis
qed

lemma stripHyphens_head: "stripHyphens s \<noteq> [] \<Longrightarrow> hd (stripHyphens s) \<noteq> CHR ''-''"
proof -
  assume ne: "stripHyphens s \<noteq> []"
  obtain m where m: "stripHyphens s = take m (dropWhile isHyphen s)"
    unfolding stripHyphens_def using stripTrailingHyphens_prefix by blast
  with ne have d: "dropWhile isHyphen s \<noteq> []" and "m \<noteq> 0" by auto
  then have "hd (stripHyphens s) = hd (dropWhile isHyphen s)"
    using m by (cases "dropWhile isHyphen s") (auto simp: take_Cons')
  with hd_dropWhile[OF d] show ?thesis by (simp add: isHyphen_def)
qed

lemma normalizeChain_head: "normalizeChain t \<noteq> [] \<Longrightarrow> hd (normalizeChain t) \<noteq> CHR ''-''"
  unfolding normalizeChain_def by (rule stripHyphens_head)

lemma stripTrailingHyphens_id: "s = [] \<or> last s \<noteq> CHR ''-'' \<Longrightarrow> stripTrailingHyphens s = s"
  unfolding stripTrailingHyphens_def
  by (cases "rev s") (auto simp: isHyphen_def last_rev[symmetric] simp del: last_rev)

lemma lastIndexOf_notin: "c \<notin> set s \<Longrightarrow> lastIndexOf s c = -1"
  by (induction s) (auto simp: Let_def)

lemma lastIndexOf_in:
  "c \<in> set s \<Longrightarrow>
     \<exists>k. lastIndexOf s c = int k \<and> k < length s \<and> s ! k = c \<and> c \<notin> set (drop (Suc k) s)"
proof (induction s)
  case Nil
  then show ?case by simp
next
  case (Cons x xs)
  show ?case
  proof (cases "c \<in> set xs")
    case True
    from Cons.IH[OF True] obtain k where
      k: "lastIndexOf xs c = int k" "k < length xs" "xs ! k = c" "c \<notin> set (drop (Suc k) xs)"
      by blast
    then have "lastIndexOf (x # xs) c = int (Suc k)" by (simp add: Let_def)
    with k show ?thesis by (intro exI[of _ "Suc k"]) simp
  next
    case False
    with Cons.prems have "x = c" by simp
    with False have "lastIndexOf (x # xs) c = int 0"
      by (simp add: Let_def lastIndexOf_notin)
    with False \<open>x = c\<close> show ?thesis by (intro exI[of _ 0]) simp
  qed
qed

lemma enforceMaxLength_hyphen:
  assumes nd: "noDoubleHyphen n" and hd: "hd n \<noteq> CHR ''-''"
    and long: "length n > KIRO_SKILL_NAME_MAX_LENGTH"
    and hy: "CHR ''-'' \<in> set (take KIRO_SKILL_NAME_MAX_LENGTH n)"
  shows "\<exists>k. 0 < k \<and> k < KIRO_SKILL_NAME_MAX_LENGTH \<and> n ! k = CHR ''-''
            \<and> CHR ''-'' \<notin> set (drop (Suc k) (take KIRO_SKILL_NAME_MAX_LENGTH n))
            \<and> enforceMaxLength n = take k n"
proof -
  let ?M = KIRO_SKILL_NAME_MAX_LENGTH
  let ?s = "take ?M n"
  from lastIndexOf_in[OF hy] obtain k where
    k: "lastIndexOf ?s (CHR ''-'') = int k" "k < length ?s" "?s ! k = CHR ''-''"
       "CHR ''-'' \<notin> set (drop (Suc k) ?s)"
    by blast
  from k(2) long have kM: "k < ?M" by simp
  with k(3) have nk: "n ! k = CHR ''-''" by simp
  from long have "n \<noteq> []" by auto
  with hd nk have k0: "0 < k" by (cases k) (auto simp: hd_conv_nth)
  have tk: "take k ?s = take k n" using kM by (simp add: min_def)
  have "Suc (k - 1) < length n" using k0 kM long by simp
  from noDoubleHyphen_nth[OF nd this] nk k0 have "n ! (k - 1) \<noteq> CHR ''-''"
    by (simp add: isHyphen_def)
  moreover have "last (take k n) = n ! (k - 1)"
  proof -
    have "take k n \<noteq> []" using k0 long by auto
    then have "last (take k n) = take k n ! (length (take k n) - 1)"
      by (rule last_conv_nth)
    also have "length (take k n) = k" using kM long by simp
    also have "take k n ! (k - 1) = n ! (k - 1)" using k0 by simp
    finally show ?thesis .
  qed
  ultimately have "stripTrailingHyphens (take k n) = take k n"
    by (simp add: stripTrailingHyphens_id)
  then have "enforceMaxLength n = take k n"
    using long k(1) k0 tk unfolding enforceMaxLength_def Let_def by simp
  with k0 kM nk k(4) show ?thesis by blast
qed

lemma enforceMaxLength_nohyphen:
  assumes long: "length n > KIRO_SKILL_NAME_MAX_LENGTH"
    and hy: "CHR ''-'' \<notin> set (take KIRO_SKILL_NAME_MAX_LENGTH n)"
  shows "enforceMaxLength n = take KIRO_SKILL_NAME_MAX_LENGTH n"
proof -
  let ?s = "take KIRO_SKILL_NAME_MAX_LENGTH n"
  have "?s \<noteq> []" using long by (auto simp: KIRO_SKILL_NAME_MAX_LENGTH_def)
  then have "last ?s \<in> set ?s" by (rule last_in_set)
  with hy have "last ?s \<noteq> CHR ''-''" by metis
  then have "stripTrailingHyphens ?s = ?s" by (simp add: stripTrailingHyphens_id)
  then show ?thesis
    using long lastIndexOf_notin[OF hy] unfolding enforceMaxLength_def Let_def by simp
qed

lemmas string_eval = code_def isSpace_def isLineTerminator_def isLowerAlpha_def isUpperAlpha_def
  isDigit_def isWordChar_def toLowerChar_def toLowerCase_def trimStart_def trimEnd_def trim_def
  isHyphen_def isNameChar_def stripTrailingHyphens_def stripHyphens_def normalizeChain_def
  enforceMaxLength_def normalizeName_def KIRO_SKILL_NAME_MAX_LENGTH_def Let_def

lemma normalizeName_unfold:
  "trim x \<noteq> [] \<Longrightarrow> enforceMaxLength (normalizeChain (trim x)) = r \<Longrightarrow> r \<noteq> [] \<Longrightarrow>
     normalizeName x = (if startsWithLowerAlpha r then r else ''item'')"
  unfolding normalizeName_def Let_def by simp

lemma startsWithLowerAlpha_take:
  "0 < k \<Longrightarrow> startsWithLowerAlpha (take k n) = startsWithLowerAlpha n"
  by (cases n; cases k) auto


lemma longHyphenated_chain:
  "normalizeChain (trim longHyphenated) = ''aaaaaaaaaaaaaaaaaaaaaaaaaaaaaaaaaaaaaaaaaaaaaaaaaaaaaaaaaa-bbbbbbbbbbbbbbbbbbbbbbbbbbbbbbbbbbbbbbbbbbbbb''"
  by (simp add: string_eval longHyphenated_def)

lemma longWord_chain: "normalizeChain (trim longWord) = longWord"
  by (simp add: string_eval longWord_def)


section \<open>Properties of the unique names and of the converter\<close>

lemma digitChar_isDigit: "d < 10 \<Longrightarrow> isDigit (digitChar d)"
proof -
  assume "d < 10"
  then have "d \<in> {0, 1, 2, 3, 4, 5, 6, 7, 8, 9}" by auto
  then show ?thesis by (auto simp: digitChar_def isDigit_def code_def)
qed

lemma showNat_digits: "c \<in> set (showNat n) \<Longrightarrow> isDigit c"
proof (induction n arbitrary: c rule: showNat.induct)
  case (1 n)
  show ?case
  proof (cases "n < 10")
    case True
    with 1(2) show ?thesis by (subst (asm) showNat.simps) (simp add: digitChar_isDigit)
  next
    case False
    with 1(2) have "c \<in> set (showNat (n div 10)) \<or> c = digitChar (n mod 10)"
      by (subst (asm) showNat.simps) auto
    with 1(1)[OF False] show ?thesis by (auto simp: digitChar_isDigit)
  qed
qed

lemma probeIndex_free: "suffixed base (probeIndex base used i) \<notin> set used"
proof (induction base used i rule: probeIndex.induct)
  case (1 base used index)
  then show ?case by (subst probeIndex.simps) auto
qed

lemma probeIndex_ge: "i \<le> probeIndex base used i"
proof (induction base used i rule: probeIndex.induct)
  case (1 base used index)
  show ?case
  proof (cases "suffixed base index \<in> set used")
    case True
    with 1 have "index + 1 \<le> probeIndex base used (index + 1)" by simp
    with True show ?thesis by (subst probeIndex.simps) simp
  next
    case False
    then show ?thesis by (subst probeIndex.simps) simp
  qed
qed

lemma setAdd_set: "set (setAdd x used) = insert x (set used)"
  by (auto simp: setAdd_def)

lemma uniqueName_fresh:
  assumes "uniqueName base used = (n, used')"
  shows "n \<notin> set used" and "set used' = insert n (set used)"
    and "n = base \<or> (\<exists>i\<ge>2. n = suffixed base i)"
proof -
  show "n \<notin> set used"
    using assms probeIndex_free[of base used 2]
    by (auto simp: uniqueName_def Let_def split: if_splits)
  show "set used' = insert n (set used)"
    using assms by (auto simp: uniqueName_def Let_def setAdd_set split: if_splits)
  show "n = base \<or> (\<exists>i\<ge>2. n = suffixed base i)"
    using assms probeIndex_ge[of 2 base used]
    by (auto simp: uniqueName_def Let_def split: if_splits)
qed

lemma isDigit_isNameChar: "isDigit c \<Longrightarrow> isNameChar c"
  by (simp add: isNameChar_def)

lemma suffixed_chars:
  "\<forall>c\<in>set base. isNameChar c \<Longrightarrow> c \<in> set (suffixed base i) \<Longrightarrow> isNameChar c"
  by (auto simp: suffixed_def isNameChar_hyphen dest: showNat_digits isDigit_isNameChar)

lemma uniqueName_chars:
  assumes "uniqueName base used = (n, used')" and "\<forall>c\<in>set base. isNameChar c"
  shows "\<forall>c\<in>set n. isNameChar c"
  using uniqueName_fresh(3)[OF assms(1)] assms(2) suffixed_chars by blast

lemma convertCommandToSkill_name:
  "convertCommandToSkill fmt command used names = (skill, used') \<Longrightarrow>
     uniqueName (normalizeName (command_name command)) used = (kskill_name skill, used')"
  by (auto simp: convertCommandToSkill_def Let_def split: prod.splits)


lemma convertCommands_names:
  assumes "convertCommands fmt cs used names = (skills, used')"
  shows "distinct (map kskill_name skills)
         \<and> set (map kskill_name skills) \<inter> set used = {}
         \<and> set used' = set used \<union> set (map kskill_name skills)
         \<and> list_all2 (\<lambda>c k. suffixedFrom (normalizeName (command_name c)) (kskill_name k))
              cs skills"
  using assms
proof (induction cs arbitrary: used skills used')
  case Nil
  then show ?case by simp
next
  case (Cons c cs)
  obtain skill used1 where s1: "convertCommandToSkill fmt c used names = (skill, used1)"
    by (cases "convertCommandToSkill fmt c used names")
  obtain rest used2 where s2: "convertCommands fmt cs used1 names = (rest, used2)"
    by (cases "convertCommands fmt cs used1 names")
  from Cons.prems s1 s2 have sk: "skills = skill # rest" and u: "used' = used2" by auto
  note un = uniqueName_fresh[OF convertCommandToSkill_name[OF s1]]
  note ih = Cons.IH[OF s2]
  from ih un(2) have "kskill_name skill \<notin> set (map kskill_name rest)" by auto
  moreover from ih un(2) have "set (map kskill_name rest) \<inter> set used = {}" by auto
  ultimately show ?case
    using ih un sk u by (auto simp: suffixedFrom_def)
qed

lemma suffixedFrom_chars:
  "suffixedFrom (normalizeName x) n \<Longrightarrow> c \<in> set n \<Longrightarrow> isNameChar c"
  using suffixed_chars[of "normalizeName x"] normalizeName_chars
  by (auto simp: suffixedFrom_def)

lemma includesStr_hd: "includesStr s p \<Longrightarrow> p \<noteq> [] \<Longrightarrow> hd p \<in> set s"
proof (induction s)
  case Nil
  then show ?case by simp
next
  case (Cons x xs)
  then show ?case by (cases p) auto
qed

lemma nameChars_safe:
  assumes "\<forall>c\<in>set n. isNameChar c"
  shows "\<not> includesStr n ''..''" and "\<not> includesStr n ''/''" and "\<not> includesStr n [CHR 0x5C]"
proof -
  have "\<not> isNameChar (CHR ''.'')" "\<not> isNameChar (CHR ''/'')" "\<not> isNameChar (CHR 0x5C)"
    by (simp_all add: isNameChar_def isLowerAlpha_def isDigit_def code_def)
  with assms have "CHR ''.'' \<notin> set n" "CHR ''/'' \<notin> set n" "CHR 0x5C \<notin> set n" by auto
  then show "\<not> includesStr n ''..''" and "\<not> includesStr n ''/''"
    and "\<not> includesStr n [CHR 0x5C]"
    using includesStr_hd[of n "''..''"] includesStr_hd[of n "''/''"]
      includesStr_hd[of n "[CHR 0x5C]"] by auto
qed

lemma nameChars_validate:
  "\<forall>c\<in>set n. isNameChar c \<Longrightarrow> validatePathSafe n label = None"
  using nameChars_safe[of n] by (simp add: validatePathSafe_def)

lemma writeAgents_safe:
  "\<forall>a\<in>set as. validatePathSafe (kagent_name a) ''agent'' = None \<Longrightarrow>
     \<exists>st'. writeAgents paths as st = Inr st'"
proof (induction as arbitrary: st)
  case Nil
  then show ?case by simp
next
  case (Cons a as)
  then show ?case by (cases st) simp
qed

lemma writeGeneratedSkills_safe:
  "\<forall>s\<in>set sks. validatePathSafe (kskill_name s) ''skill'' = None \<Longrightarrow>
     \<exists>st'. writeGeneratedSkills paths sks st = Inr st'"
proof (induction sks arbitrary: st)
  case Nil
  then show ?case by simp
next
  case (Cons a as)
  then show ?case by (cases st) simp
qed

lemma convert_agents:
  "agents (fst (convertClaudeToKiro fmt claudeMd plugin)) =
     map (\<lambda>agent. convertAgentToKiroAgent agent
                    (map (\<lambda>a. normalizeName (agent_name a)) (plugin_agents plugin)))
         (plugin_agents plugin)"
  by (simp add: convertClaudeToKiro_def Let_def split: prod.splits)

lemma convert_skillDirs:
  "skillDirs (fst (convertClaudeToKiro fmt claudeMd plugin)) =
     map (\<lambda>skill. \<lparr> kdir_name = skill_name skill, kdir_sourceDir = skill_sourceDir skill \<rparr>)
         (plugin_skills plugin)"
  by (simp add: convertClaudeToKiro_def Let_def split: prod.splits)

lemma convert_generatedSkills:
  "generatedSkills (fst (convertClaudeToKiro fmt claudeMd plugin)) =
     fst (convertCommands fmt (plugin_commands plugin)
            (reserveSkillNames (skillDirs (fst (convertClaudeToKiro fmt claudeMd plugin))))
            (map (\<lambda>a. normalizeName (agent_name a)) (plugin_agents plugin)))"
  by (auto simp: convertClaudeToKiro_def Let_def split: prod.splits)

lemma convertAgent_name:
  "kagent_name (convertAgentToKiroAgent agent names) = normalizeName (agent_name agent)"
  by (simp add: convertAgentToKiroAgent_def Let_def)

lemma reserve_fold:
  "set (foldl (\<lambda>usedSkillNames skill. setAdd (normalizeName (kdir_name skill)) usedSkillNames)
          acc dirs) = set acc \<union> (\<lambda>d. normalizeName (kdir_name d)) ` set dirs"
  by (induction dirs arbitrary: acc) (auto simp: setAdd_set)

lemma reserveSkillNames_set:
  "set (reserveSkillNames dirs) = (\<lambda>d. normalizeName (kdir_name d)) ` set dirs"
  unfolding reserveSkillNames_def by (simp add: reserve_fold)

lemma convert_agent_names:
  "map kagent_name (agents (fst (convertClaudeToKiro fmt claudeMd plugin))) =
     map (\<lambda>a. normalizeName (agent_name a)) (plugin_agents plugin)"
  by (simp add: convert_agents convertAgent_name comp_def)

lemma convert_generated_names:
  "distinct (map kskill_name (generatedSkills (fst (convertClaudeToKiro fmt claudeMd plugin))))
   \<and> set (map kskill_name (generatedSkills (fst (convertClaudeToKiro fmt claudeMd plugin))))
       \<inter> (\<lambda>s. normalizeName (skill_name s)) ` set (plugin_skills plugin) = {}
   \<and> list_all2 (\<lambda>c k. suffixedFrom (normalizeName (command_name c)) (kskill_name k))
        (plugin_commands plugin)
        (generatedSkills (fst (convertClaudeToKiro fmt claudeMd plugin)))"
proof -
  let ?b = "fst (convertClaudeToKiro fmt claudeMd plugin)"
  let ?used = "reserveSkillNames (skillDirs ?b)"
  let ?names = "map (\<lambda>a. normalizeName (agent_name a)) (plugin_agents plugin)"
  obtain skills used' where
    c: "convertCommands fmt (plugin_commands plugin) ?used ?names = (skills, used')"
    by (cases "convertCommands fmt (plugin_commands plugin) ?used ?names")
  then have g: "generatedSkills ?b = skills" by (simp add: convert_generatedSkills)
  have u: "set ?used = (\<lambda>s. normalizeName (skill_name s)) ` set (plugin_skills plugin)"
    by (simp add: reserveSkillNames_set convert_skillDirs image_image)
  from convertCommands_names[OF c] g u show ?thesis by simp
qed

lemma list_all2_right: "list_all2 P xs ys \<Longrightarrow> y \<in> set ys \<Longrightarrow> \<exists>x\<in>set xs. P x y"
  by (induction rule: list_all2_induct) auto


lemma example_agents_nonempty:
  "agents (fst (convertClaudeToKiro bodyOnly None examplePlugin)) \<noteq> []"
  by (simp add: convert_agents examplePlugin_def)

lemma example_generated_nonempty:
  "generatedSkills (fst (convertClaudeToKiro bodyOnly None examplePlugin)) \<noteq> []"
  using convert_generated_names[of bodyOnly None examplePlugin]
  by (auto simp: examplePlugin_def)


lemma example_generated_names:
  "map kskill_name (generatedSkills (fst (convertClaudeToKiro bodyOnly None examplePlugin)))
     = [''doc-writer-2'', ''doc-writer-3'']"
proof -
  have n: "normalizeName ''doc writer'' = ''doc-writer''" "normalizeName ''Doc:Writer'' = ''doc-writer''"
    "normalizeName ''Doc Writer'' = ''doc-writer''"
    by (simp_all add: string_eval)
  have u1: "uniqueName ''doc-writer'' [''doc-writer''] = (''doc-writer-2'', [''doc-writer'', ''doc-writer-2''])"
    by (simp add: uniqueName_def suffixed_def probeIndex.simps showNat.simps digitChar_def setAdd_def Let_def)
  have u2: "uniqueName ''doc-writer'' [''doc-writer'', ''doc-writer-2'']
      = (''doc-writer-3'', [''doc-writer'', ''doc-writer-2'', ''doc-writer-3''])"
    by (simp add: uniqueName_def suffixed_def probeIndex.simps showNat.simps digitChar_def setAdd_def Let_def)
  show ?thesis
    by (simp add: convert_generatedSkills convert_skillDirs examplePlugin_def reserveSkillNames_def
        setAdd_def n convertCommandToSkill_def u1 u2 Let_def split: prod.splits)
qed


section \<open>Properties of the agent conversion\<close>

text \<open>The pattern of a tool, with the literal compared first.\<close>

lemma toolAt_if:
  "toolAt T prev s =
     (if startsWith s T
      then T \<noteq> [] \<and> wordBoundary prev (headOpt s)
           \<and> wordBoundary (Some (last T)) (headOpt (drop (length T) s))
           \<and> toolLookahead (drop (length T) s)
      else False)"
  by (auto simp: toolAt_def)

lemmas transform_eval = string_eval transformContentForKiro_def toolNamesPass_def
  CLAUDE_TO_KIRO_TOOLS_def matchTaskCall_def matchSlashRef_def matchAgentRef_def toolAt_if
  toolLookahead_def wordBoundary_def isWordOpt_def headOpt_def pathBoundary_def
  slashBoundary_def isAgentChar_def isCommandChar_def newline_def

lemma trimEnd_append:
  assumes "a \<noteq> []" and "\<not> isSpace (last a)"
  shows "trimEnd (a @ b) = a @ trimEnd b"
proof -
  have "dropWhile isSpace (rev b @ rev a) =
      (if \<forall>x\<in>set (rev b). isSpace x then dropWhile isSpace (rev a)
       else dropWhile isSpace (rev b) @ rev a)"
    by (simp add: dropWhile_append)
  moreover have "dropWhile isSpace (rev a) = rev a"
    using assms by (cases "rev a") (auto simp: last_rev[symmetric] simp del: last_rev)
  moreover have "(\<forall>x\<in>set (rev b). isSpace x) \<Longrightarrow> dropWhile isSpace (rev b) = []"
    by simp
  ultimately show ?thesis unfolding trimEnd_def by auto
qed

lemma trim_header:
  "trim (''## Capabilities'' @ b) = ''## Capabilities'' @ trimEnd b"
proof -
  have "trimStart (''## Capabilities'' @ b) = ''## Capabilities'' @ b"
    by (simp add: trimStart_def isSpace_def code_def)
  moreover have "trimEnd (''## Capabilities'' @ b) = ''## Capabilities'' @ trimEnd b"
    by (rule trimEnd_append) (simp_all add: isSpace_def code_def)
  ultimately show ?thesis by (simp add: trim_def)
qed


lemma transform_x: "transformContentForKiro (trim ''x'') [] = ''x''"
  by (simp add: transform_eval)

lemma transform_prefixed:
  "transformContentForKiro (''## Capabilities'' @ newline @ ''- Run /plan'' @ newline @ newline @ ''x'') []
     = ''## Capabilities'' @ newline @ ''- Run the plan skill'' @ newline @ newline @ ''x''"
  by (simp add: transform_eval)


section \<open>Properties of the server conversion\<close>

lemma convertMcpEntries_step:
  "convertMcpEntries ((name, server) # rest) result msgs =
     (if lacksCommand server
      then convertMcpEntries rest result (msgs @ [skipWarning name])
      else convertMcpEntries rest (assignKey name (kiroEntryOf server) result)
             (msgs @ [Log (''MCP server \"'' @ name @ ''\" will execute: ''
                @ the (server_command server)
                @ (case server_args server of Some a \<Rightarrow> '' '' @ joinWith '' '' a | None \<Rightarrow> []))]))"
proof -
  have a: "(case server_args server of Some a \<Rightarrow> if length a > 0 then Some a else None
            | None \<Rightarrow> None) = (if server_args server = Some [] then None else server_args server)"
    by (cases "server_args server") auto
  have e: "(case server_env server of Some e \<Rightarrow> if length e > 0 then Some e else None
            | None \<Rightarrow> None) = (if server_env server = Some [] then None else server_env server)"
    by (cases "server_env server") auto
  show ?thesis
    by (cases "server_command server")
       (simp_all add: lacksCommand_def kiroEntryOf_def skipWarning_def Let_def a e)
qed

lemma convertMcpEntries_result:
  assumes "distinct (map fst entries)" and "name \<noteq> ''__proto__''"
  shows "map_of (fst (convertMcpEntries entries result msgs)) name =
           (case map_of entries name of
              None \<Rightarrow> map_of result name
            | Some server \<Rightarrow>
                if lacksCommand server then map_of result name else Some (kiroEntryOf server))"
  using assms(1)
proof (induction entries arbitrary: result msgs)
  case Nil
  then show ?case by simp
next
  case (Cons e entries)
  obtain n server where e: "e = (n, server)" by (cases e)
  from Cons.prems e have d: "distinct (map fst entries)" and n: "n \<notin> fst ` set entries"
    by auto
  from n have m: "map_of entries n = None" by (simp add: map_of_eq_None_iff)
  show ?case
    unfolding e convertMcpEntries_step
    using Cons.IH[OF d] m assms(2)
    by (auto simp: assignKey_def update_conv' split: option.splits)
qed

lemma convertMcpEntries_proto:
  "map_of (fst (convertMcpEntries entries result msgs)) ''__proto__'' = map_of result ''__proto__''"
proof (induction entries arbitrary: result msgs)
  case Nil
  then show ?case by simp
next
  case (Cons e entries)
  obtain n server where e: "e = (n, server)" by (cases e)
  show ?case
    unfolding e convertMcpEntries_step
    using Cons.IH by (simp add: assignKey_def update_conv')
qed

lemma convertMcpEntries_keys:
  "distinct (map fst result) \<Longrightarrow> distinct (map fst (fst (convertMcpEntries entries result msgs)))"
proof (induction entries arbitrary: result msgs)
  case Nil
  then show ?case by simp
next
  case (Cons e entries)
  obtain n server where e: "e = (n, server)" by (cases e)
  show ?case
    unfolding e convertMcpEntries_step
    using Cons.IH Cons.prems by (simp add: assignKey_def distinct_update)
qed

lemma convertMcpEntries_msgs:
  "snd (convertMcpEntries entries result msgs) =
     msgs @ map (\<lambda>(name, server).
                   if lacksCommand server then skipWarning name
                   else Log (''MCP server \"'' @ name @ ''\" will execute: ''
                          @ the (server_command server)
                          @ (case server_args server of
                               Some a \<Rightarrow> '' '' @ joinWith '' '' a | None \<Rightarrow> [])))
                entries"
proof (induction entries arbitrary: result msgs)
  case Nil
  then show ?case by simp
next
  case (Cons e entries)
  obtain n server where e: "e = (n, server)" by (cases e)
  show ?case
    unfolding e convertMcpEntries_step using Cons.IH by simp
qed

lemma warnings_filter:
  "filter isWarn (map (\<lambda>(name, server).
                   if lacksCommand server then skipWarning name else Log (f name server))
                entries)
   = map (\<lambda>(name, server). skipWarning name) (filter (\<lambda>(name, server). lacksCommand server) entries)"
  by (induction entries) (auto simp: skipWarning_def)

lemma convertMcpServers_Some:
  "convertMcpServers (Some entries) = convertMcpEntries entries [] []"
  by (cases entries) (simp_all add: convertMcpServers_def)


section \<open>Properties of the writer\<close>

lemma validatePathSafe_None: "(validatePathSafe n label = None) = (\<not> unsafeName n)"
  by (simp add: validatePathSafe_def unsafeName_def)

lemma validatePathSafe_Some:
  "validatePathSafe n label = Some err \<Longrightarrow>
     unsafeName n \<and> err = label @ '' name contains unsafe path characters: '' @ n"
  by (auto simp: validatePathSafe_def unsafeName_def split: if_splits)

lemma fixed_segments_safe:
  "\<not> unsafeName ''prompts''" "\<not> unsafeName ''SKILL''" "\<not> unsafeName ''steering''"
  by (simp_all add: unsafeName_def)

lemma cleanOps_append: "cleanOps (a @ b) = (cleanOps a \<and> cleanOps b)"
  by (auto simp: cleanOps_def)

lemma agent_ops_clean:
  assumes "\<not> unsafeName m"
  shows "cleanOps [WriteAgentJson (dir @ [m @ ''.json'']) cfg,
                   WriteText (dir @ [''prompts'', m @ ''.md'']) text]"
  using assms fixed_segments_safe by (auto simp: cleanOps_def butlast_append)

lemma skill_ops_clean:
  assumes "\<not> unsafeName m"
  shows "cleanOps [WriteText (dir @ [m, ''SKILL.md'']) text]"
  using assms fixed_segments_safe by (auto simp: cleanOps_def butlast_append)

lemma copy_ops_clean:
  assumes "\<not> unsafeName m"
  shows "cleanOps [CopyDir src (dir @ [m])]"
  using assms by (auto simp: cleanOps_def)

lemma steering_ops_clean:
  assumes "\<not> unsafeName m"
  shows "cleanOps [WriteText (dir @ [''steering'', m @ ''.md'']) text]"
  using assms fixed_segments_safe by (auto simp: cleanOps_def butlast_append)


lemma writeAgents_clean:
  "cleanOps ops \<Longrightarrow>
     cleanOps (finalOps (writeAgents paths as (ops, msgs)))
     \<and> ((\<exists>a\<in>set as. unsafeName (kagent_name a)) \<longrightarrow> isl (writeAgents paths as (ops, msgs)))"
proof (induction as arbitrary: ops msgs)
  case Nil
  then show ?case by simp
next
  case (Cons a as)
  show ?case
  proof (cases "unsafeName (kagent_name a)")
    case True
    then obtain err where "validatePathSafe (kagent_name a) ''agent'' = Some err"
      using validatePathSafe_None[of "kagent_name a" "''agent''"] by auto
    with Cons.prems show ?thesis by simp
  next
    case False
    then have v: "validatePathSafe (kagent_name a) ''agent'' = None"
      by (simp add: validatePathSafe_None)
    from False Cons.prems have "cleanOps (ops @
        [WriteAgentJson (agentsDir paths @ [kagent_name a @ ''.json'']) (kagent_config a),
         WriteText (agentsDir paths @ [''prompts'', kagent_name a @ ''.md''])
           (kagent_promptContent a @ newline)])"
      by (simp add: cleanOps_append agent_ops_clean)
    from Cons.IH[OF this] v False show ?thesis by simp
  qed
qed

lemma writeGeneratedSkills_clean:
  "cleanOps ops \<Longrightarrow>
     cleanOps (finalOps (writeGeneratedSkills paths sks (ops, msgs)))
     \<and> ((\<exists>s\<in>set sks. unsafeName (kskill_name s))
          \<longrightarrow> isl (writeGeneratedSkills paths sks (ops, msgs)))"
proof (induction sks arbitrary: ops msgs)
  case Nil
  then show ?case by simp
next
  case (Cons a as)
  show ?case
  proof (cases "unsafeName (kskill_name a)")
    case True
    then obtain err where "validatePathSafe (kskill_name a) ''skill'' = Some err"
      using validatePathSafe_None[of "kskill_name a" "''skill''"] by auto
    with Cons.prems show ?thesis by simp
  next
    case False
    then have v: "validatePathSafe (kskill_name a) ''skill'' = None"
      by (simp add: validatePathSafe_None)
    from False Cons.prems have "cleanOps (ops @
        [WriteText (skillsDir paths @ [kskill_name a, ''SKILL.md'']) (kskill_content a @ newline)])"
      by (simp add: cleanOps_append skill_ops_clean)
    from Cons.IH[OF this] v False show ?thesis by simp
  qed
qed

lemma writeSkillDirs_clean:
  "cleanOps ops \<Longrightarrow>
     cleanOps (finalOps (writeSkillDirs resolve paths dirs (ops, msgs)))
     \<and> ((\<exists>d\<in>set dirs. unsafeName (kdir_name d))
          \<longrightarrow> isl (writeSkillDirs resolve paths dirs (ops, msgs)))"
proof (induction dirs arbitrary: ops msgs)
  case Nil
  then show ?case by simp
next
  case (Cons a as)
  show ?case
  proof (cases "unsafeName (kdir_name a)")
    case True
    then obtain err where "validatePathSafe (kdir_name a) ''skill directory'' = Some err"
      using validatePathSafe_None[of "kdir_name a" "''skill directory''"] by auto
    with Cons.prems show ?thesis by simp
  next
    case False
    then have v: "validatePathSafe (kdir_name a) ''skill directory'' = None"
      by (simp add: validatePathSafe_None)
    from False Cons.prems have c: "cleanOps (ops @
        [CopyDir (kdir_sourceDir a) (skillsDir paths @ [kdir_name a])])"
      by (simp add: cleanOps_append copy_ops_clean)
    from Cons.IH[OF c] Cons.IH[OF Cons.prems] v False show ?thesis by (simp add: Let_def)
  qed
qed

lemma writeSteeringFiles_clean:
  "cleanOps ops \<Longrightarrow>
     cleanOps (finalOps (writeSteeringFiles (resolveKiroPaths root) fs (ops, msgs)))
     \<and> ((\<exists>f\<in>set fs. unsafeName (steering_name f))
          \<longrightarrow> isl (writeSteeringFiles (resolveKiroPaths root) fs (ops, msgs)))"
proof (induction fs arbitrary: ops msgs)
  case Nil
  then show ?case by simp
next
  case (Cons a as)
  show ?case
  proof (cases "unsafeName (steering_name a)")
    case True
    then obtain err where "validatePathSafe (steering_name a) ''steering file'' = Some err"
      using validatePathSafe_None[of "steering_name a" "''steering file''"] by auto
    with Cons.prems show ?thesis by simp
  next
    case False
    then have v: "validatePathSafe (steering_name a) ''steering file'' = None"
      by (simp add: validatePathSafe_None)
    have "\<exists>dir. steeringDir (resolveKiroPaths root) = dir @ [''steering'']"
      by (simp add: resolveKiroPaths_def Let_def)
    then obtain dir where d: "steeringDir (resolveKiroPaths root) = dir @ [''steering'']" ..
    from False Cons.prems have "cleanOps (ops @
        [WriteText (steeringDir (resolveKiroPaths root) @ [steering_name a @ ''.md''])
           (steering_content a @ newline)])"
      unfolding d by (simp add: cleanOps_append steering_ops_clean)
    from Cons.IH[OF this] v False show ?thesis by simp
  qed
qed

lemma isl_finalOps:
  "isl r \<Longrightarrow> \<exists>err msgs. r = Inl (err, (finalOps r, msgs))"
  by (cases r) auto


lemma writeSkillDirs_Inr:
  "writeSkillDirs resolve paths dirs (ops, msgs) = Inr (ops', msgs') \<Longrightarrow>
     set ops \<subseteq> set ops' \<and> set msgs \<subseteq> set msgs'
     \<and> (\<forall>d\<in>set dirs. CopyDir (kdir_sourceDir d) (skillsDir paths @ [kdir_name d]) \<in> set ops'
                        \<or> escapeWarning (kdir_name d) \<in> set msgs')"
proof (induction dirs arbitrary: ops msgs)
  case Nil
  then show ?case by simp
next
  case (Cons d dirs)
  from Cons.prems have v: "validatePathSafe (kdir_name d) ''skill directory'' = None"
    by (cases "validatePathSafe (kdir_name d) ''skill directory''") auto
  show ?case
  proof (cases "startsWith (resolve (skillsDir paths @ [kdir_name d])) (resolve (skillsDir paths))")
    case True
    with Cons.prems v have "writeSkillDirs resolve paths dirs
        (ops @ [CopyDir (kdir_sourceDir d) (skillsDir paths @ [kdir_name d])], msgs)
        = Inr (ops', msgs')"
      by (simp add: Let_def)
    from Cons.IH[OF this] show ?thesis by auto
  next
    case False
    with Cons.prems v have "writeSkillDirs resolve paths dirs
        (ops, msgs @ [escapeWarning (kdir_name d)]) = Inr (ops', msgs')"
      by (simp add: Let_def escapeWarning_def)
    from Cons.IH[OF this] show ?thesis by auto
  qed
qed

lemma writeSkillDirs_Inl:
  "writeSkillDirs resolve paths dirs (ops, msgs) = Inl (err, st) \<Longrightarrow>
     \<exists>d\<in>set dirs. unsafeName (kdir_name d)
        \<and> err = ''skill directory name contains unsafe path characters: '' @ kdir_name d"
proof (induction dirs arbitrary: ops msgs)
  case Nil
  then show ?case by simp
next
  case (Cons d dirs)
  show ?case
  proof (cases "validatePathSafe (kdir_name d) ''skill directory''")
    case (Some e)
    with Cons.prems have "err = e" by simp
    with validatePathSafe_Some[OF Some] show ?thesis by simp
  next
    case None
    show ?thesis
    proof (cases "startsWith (resolve (skillsDir paths @ [kdir_name d])) (resolve (skillsDir paths))")
      case True
      with Cons.prems None have "writeSkillDirs resolve paths dirs
          (ops @ [CopyDir (kdir_sourceDir d) (skillsDir paths @ [kdir_name d])], msgs)
          = Inl (err, st)"
        by (simp add: Let_def)
      from Cons.IH[OF this] show ?thesis by auto
    next
      case False
      with Cons.prems None have "writeSkillDirs resolve paths dirs
          (ops, msgs @ [escapeWarning (kdir_name d)]) = Inl (err, st)"
        by (simp add: Let_def escapeWarning_def)
      from Cons.IH[OF this] show ?thesis by auto
    qed
  qed
qed

lemma writeSteeringFiles_safe:
  "\<forall>f\<in>set fs. \<not> unsafeName (steering_name f) \<Longrightarrow>
     \<exists>ops'. writeSteeringFiles paths fs (ops, msgs) = Inr (ops', msgs) \<and> set ops \<subseteq> set ops'"
proof (induction fs arbitrary: ops)
  case Nil
  then show ?case by simp
next
  case (Cons f fs)
  then have v: "validatePathSafe (steering_name f) ''steering file'' = None"
    by (simp add: validatePathSafe_None)
  from Cons.prems have "\<forall>f\<in>set fs. \<not> unsafeName (steering_name f)" by simp
  from Cons.IH[OF this, of "ops @ [WriteText (steeringDir paths @ [steering_name f @ ''.md''])
      (steering_content f @ newline)]"] v
  show ?case by auto
qed

lemma writeMcpServers_mono:
  "writeMcpServers existing backupPath paths servers (ops, msgs) = (ops', msgs') \<Longrightarrow>
     set ops \<subseteq> set ops' \<and> set msgs \<subseteq> set msgs'"
  by (cases existing) (auto simp: writeMcpServers_def Let_def split: if_splits)

lemma convert_steering_safe:
  "\<forall>f\<in>set (steeringFiles (fst (convertClaudeToKiro fmt claudeMd plugin))).
     \<not> unsafeName (steering_name f)"
proof -
  have "\<not> unsafeName ''compound-engineering''" by (simp add: unsafeName_def)
  then show ?thesis
    by (auto simp: convertClaudeToKiro_def buildSteeringFiles_def Let_def
        split: prod.splits option.splits if_splits)
qed

lemma writeKiroBundle_passthrough:
  assumes a: "\<forall>a\<in>set (agents b). validatePathSafe (kagent_name a) ''agent'' = None"
    and g: "\<forall>s\<in>set (generatedSkills b). validatePathSafe (kskill_name s) ''skill'' = None"
    and f: "\<forall>f\<in>set (steeringFiles b). \<not> unsafeName (steering_name f)"
  shows "case writeKiroBundle resolve existing backupPath outputRoot b of
           Inl (err, st) \<Rightarrow>
             \<exists>d\<in>set (skillDirs b). unsafeName (kdir_name d)
                \<and> err = ''skill directory name contains unsafe path characters: '' @ kdir_name d
         | Inr (ops, msgs) \<Rightarrow>
             \<forall>d\<in>set (skillDirs b).
                CopyDir (kdir_sourceDir d) (skillsDir (resolveKiroPaths outputRoot) @ [kdir_name d])
                  \<in> set ops
                \<or> escapeWarning (kdir_name d) \<in> set msgs"
proof -
  let ?paths = "resolveKiroPaths outputRoot"
  from writeAgents_safe[OF a] obtain st1 where
    r1: "writeAgents ?paths (agents b) ([EnsureDir (kiroDir ?paths)], []) = Inr st1" by blast
  from writeGeneratedSkills_safe[OF g] obtain st2 where
    r2: "writeGeneratedSkills ?paths (generatedSkills b) st1 = Inr st2" by blast
  obtain ops2 msgs2 where st2: "st2 = (ops2, msgs2)" by (cases st2)
  show ?thesis
  proof (cases "writeSkillDirs resolve ?paths (skillDirs b) (ops2, msgs2)")
    case (Inl e)
    obtain err st where e: "e = (err, st)" by (cases e)
    from writeSkillDirs_Inl[OF Inl[unfolded e]] r1 r2 st2 Inl e show ?thesis
      by (simp add: writeKiroBundle_def Let_def)
  next
    case (Inr st3)
    obtain ops3 msgs3 where st3: "st3 = (ops3, msgs3)" by (cases st3)
    from writeSteeringFiles_safe[OF f, of ?paths ops3 msgs3] obtain ops4 where
      r4: "writeSteeringFiles ?paths (steeringFiles b) (ops3, msgs3) = Inr (ops4, msgs3)"
      and m4: "set ops3 \<subseteq> set ops4" by blast
    obtain ops5 msgs5 where
      r5: "writeMcpServers existing backupPath ?paths (mcpServers b) (ops4, msgs3) = (ops5, msgs5)"
      by (cases "writeMcpServers existing backupPath ?paths (mcpServers b) (ops4, msgs3)")
    from r1 r2 st2 Inr st3 r4 r5
    have w: "writeKiroBundle resolve existing backupPath outputRoot b = Inr (ops5, msgs5)"
      by (simp add: writeKiroBundle_def Let_def)
    from writeSkillDirs_Inr[OF Inr[unfolded st3]] m4 writeMcpServers_mono[OF r5]
    have "\<forall>d\<in>set (skillDirs b).
            CopyDir (kdir_sourceDir d) (skillsDir ?paths @ [kdir_name d]) \<in> set ops5
            \<or> escapeWarning (kdir_name d) \<in> set msgs5"
      by blast
    with w show ?thesis by simp
  qed
qed

lemma convert_agents_validate:
  "\<forall>a\<in>set (agents (fst (convertClaudeToKiro fmt claudeMd plugin))).
     validatePathSafe (kagent_name a) ''agent'' = None"
  using normalizeName_chars nameChars_validate
  by (auto simp: convert_agents convertAgent_name)

lemma convert_generated_chars:
  assumes "s \<in> set (generatedSkills (fst (convertClaudeToKiro fmt claudeMd plugin)))"
  shows "\<forall>c\<in>set (kskill_name s). isNameChar c"
proof -
  let ?b = "fst (convertClaudeToKiro fmt claudeMd plugin)"
  have "list_all2 (\<lambda>c k. suffixedFrom (normalizeName (command_name c)) (kskill_name k))
      (plugin_commands plugin) (generatedSkills ?b)"
    using convert_generated_names[of fmt claudeMd plugin] by (rule conjunct2[THEN conjunct2])
  from list_all2_right[OF this assms]
  obtain c :: ClaudeCommand
    where "suffixedFrom (normalizeName (command_name c)) (kskill_name s)"
    by blast
  then show ?thesis using suffixedFrom_chars by blast
qed

lemma convert_generated_validate:
  "\<forall>s\<in>set (generatedSkills (fst (convertClaudeToKiro fmt claudeMd plugin))).
     validatePathSafe (kskill_name s) ''skill'' = None"
  using convert_generated_chars nameChars_validate by blast


lemma spread_map_of:
  "distinct (map fst b) \<Longrightarrow>
     map_of (spread a b) k = (case map_of b k of Some v \<Rightarrow> Some v | None \<Rightarrow> map_of a k)"
  unfolding spread_def
proof (induction b arbitrary: a)
  case Nil
  then show ?case by simp
next
  case (Cons e b)
  obtain k' v where e: "e = (k', v)" by (cases e)
  from Cons.prems e have d: "distinct (map fst b)" and n: "k' \<notin> fst ` set b" by auto
  from n have m: "map_of b k' = None" by (simp add: map_of_eq_None_iff)
  show ?case
    unfolding e using Cons.IH[OF d, of "AList.update k' v a"] m
    by (auto simp: update_conv' split: option.splits)
qed

lemma map_of_serverJson:
  "map_of (map (\<lambda>(name, server). (name, mcpServerJson server)) servers) k =
     map_option mcpServerJson (map_of servers k)"
  by (induction servers) auto

lemma mergeMcpConfig_other:
  "key \<noteq> ''mcpServers'' \<Longrightarrow> map_of (mergeMcpConfig config servers) key = map_of config key"
  by (simp add: mergeMcpConfig_def update_conv')

lemma mergeMcpConfig_servers:
  "map_of (mergeMcpConfig config servers) ''mcpServers'' =
     Some (JObj (spread (existingServersOf config)
                   (map (\<lambda>(name, server). (name, mcpServerJson server)) servers)))"
  by (simp add: mergeMcpConfig_def update_conv')

lemma merged_servers_lookup:
  assumes "distinct (map fst servers)"
  shows "map_of (spread old (map (\<lambda>(name, server). (name, mcpServerJson server)) servers)) name =
           (case map_of servers name of
              Some server \<Rightarrow> Some (mcpServerJson server)
            | None \<Rightarrow> map_of old name)"
proof -
  have eq: "map fst (map (\<lambda>(name, server). (name, mcpServerJson server)) servers) = map fst servers"
    by (induction servers) auto
  have "distinct (map fst (map (\<lambda>(name, server). (name, mcpServerJson server)) servers))"
    unfolding eq by (rule assms)
  from spread_map_of[OF this] show ?thesis
    by (simp add: map_of_serverJson split: option.splits)
qed


lemma writeMcpServers_last:
  assumes "servers \<noteq> []"
  shows "\<exists>ops' msgs'. writeMcpServers existing backupPath paths servers (ops, msgs) = (ops', msgs')
           \<and> ops' \<noteq> []
           \<and> last ops' = WriteJson (settingsDir paths @ [''mcp.json''])
                            (JObj (mergeMcpConfig (parsedConfig existing) servers))"
  using assms
  by (cases existing) (simp_all add: writeMcpServers_def parsedConfig_def Let_def)

lemma writeKiroBundle_Inr:
  assumes "writeKiroBundle resolve existing backupPath outputRoot bundle = Inr st"
  shows "\<exists>st4. st = writeMcpServers existing backupPath (resolveKiroPaths outputRoot)
                       (mcpServers bundle) st4
           \<and> (\<forall>existing'. writeKiroBundle resolve existing' backupPath outputRoot bundle =
                 Inr (writeMcpServers existing' backupPath (resolveKiroPaths outputRoot)
                        (mcpServers bundle) st4))"
proof -
  let ?p = "resolveKiroPaths outputRoot"
  obtain st1 where r1: "writeAgents ?p (agents bundle) ([EnsureDir (kiroDir ?p)], []) = Inr st1"
    using assms by (simp add: writeKiroBundle_def Let_def split: sum.splits)
  obtain st2 where r2: "writeGeneratedSkills ?p (generatedSkills bundle) st1 = Inr st2"
    using assms r1 by (simp add: writeKiroBundle_def Let_def split: sum.splits)
  obtain st3 where r3: "writeSkillDirs resolve ?p (skillDirs bundle) st2 = Inr st3"
    using assms r1 r2 by (simp add: writeKiroBundle_def Let_def split: sum.splits)
  obtain st4 where r4: "writeSteeringFiles ?p (steeringFiles bundle) st3 = Inr st4"
    using assms r1 r2 r3 by (simp add: writeKiroBundle_def Let_def split: sum.splits)
  have "writeKiroBundle resolve e backupPath outputRoot bundle =
      Inr (writeMcpServers e backupPath ?p (mcpServers bundle) st4)" for e
    using r1 r2 r3 r4 by (simp add: writeKiroBundle_def Let_def)
  with assms show ?thesis by (intro exI[of _ st4]) simp
qed


lemma settingsBundle_written:
  "\<exists>ops msgs. writeKiroBundle concat settingsFile ''bk'' [''out''] settingsBundle = Inr (ops, msgs)"
  by (simp add: writeKiroBundle_def settingsBundle_def settingsFile_def writeMcpServers_def Let_def)


section \<open>The operations of the writer, record by record\<close>

text \<open>A loop over records with accepted identifiers appends the operations of each record
  in order.\<close>

lemma writeAgents_step:
  "\<not> unsafeName (kagent_name a) \<Longrightarrow>
     writeAgents paths (a # as) (ops, msgs) = writeAgents paths as (ops @ agentOps paths a, msgs)"
  by (simp add: validatePathSafe_None[THEN iffD2] agentOps_def)

lemma writeGeneratedSkills_step:
  "\<not> unsafeName (kskill_name a) \<Longrightarrow>
     writeGeneratedSkills paths (a # as) (ops, msgs) =
       writeGeneratedSkills paths as (ops @ [skillOp paths a], msgs)"
  by (simp add: validatePathSafe_None[THEN iffD2] skillOp_def)

lemma writeSteeringFiles_step:
  "\<not> unsafeName (steering_name a) \<Longrightarrow>
     writeSteeringFiles paths (a # as) (ops, msgs) =
       writeSteeringFiles paths as (ops @ [steeringOp paths a], msgs)"
  by (simp add: validatePathSafe_None[THEN iffD2] steeringOp_def)

lemma writeSkillDirs_step:
  "\<not> unsafeName (kdir_name a) \<Longrightarrow>
     writeSkillDirs resolve paths (a # as) (ops, msgs) =
       (if inside resolve paths (kdir_name a)
        then writeSkillDirs resolve paths as (ops @ [copyOp paths a], msgs)
        else writeSkillDirs resolve paths as (ops, msgs @ [escapeWarning (kdir_name a)]))"
  by (simp add: validatePathSafe_None[THEN iffD2] copyOp_def inside_def escapeWarning_def Let_def)

lemma unsafe_throws:
  "unsafeName n \<Longrightarrow> \<exists>err. validatePathSafe n label = Some err"
  using validatePathSafe_None[of n label] by (cases "validatePathSafe n label") auto

lemma writeAgents_ops:
  "\<forall>a\<in>set as. \<not> unsafeName (kagent_name a) \<Longrightarrow>
     writeAgents paths as (ops, msgs) = Inr (ops @ concat (map (agentOps paths) as), msgs)"
  by (induction as arbitrary: ops) (simp_all add: writeAgents_step del: writeAgents.simps(2))

lemma writeGeneratedSkills_ops:
  "\<forall>s\<in>set sks. \<not> unsafeName (kskill_name s) \<Longrightarrow>
     writeGeneratedSkills paths sks (ops, msgs) = Inr (ops @ map (skillOp paths) sks, msgs)"
  by (induction sks arbitrary: ops) (simp_all add: writeGeneratedSkills_step del: writeGeneratedSkills.simps(2))

lemma writeSteeringFiles_ops:
  "\<forall>f\<in>set fs. \<not> unsafeName (steering_name f) \<Longrightarrow>
     writeSteeringFiles paths fs (ops, msgs) = Inr (ops @ map (steeringOp paths) fs, msgs)"
  by (induction fs arbitrary: ops) (simp_all add: writeSteeringFiles_step del: writeSteeringFiles.simps(2))

lemma writeSkillDirs_ops:
  "\<forall>d\<in>set ds. \<not> unsafeName (kdir_name d) \<Longrightarrow>
     writeSkillDirs resolve paths ds (ops, msgs) =
       Inr (ops @ map (copyOp paths) (filter (\<lambda>d. inside resolve paths (kdir_name d)) ds),
            msgs @ map (\<lambda>d. escapeWarning (kdir_name d))
                     (filter (\<lambda>d. \<not> inside resolve paths (kdir_name d)) ds))"
  by (induction ds arbitrary: ops msgs) (simp_all add: writeSkillDirs_step del: writeSkillDirs.simps(2))

text \<open>A loop that meets an unsafe record throws with the state that the records before it
  leave.\<close>

lemma writeAgents_abort:
  "\<exists>a\<in>set as. unsafeName (kagent_name a) \<Longrightarrow>
     \<exists>err. writeAgents paths as (ops, msgs) =
        Inl (err, (ops @ concat (map (agentOps paths)
                     (takeWhile (\<lambda>a. \<not> unsafeName (kagent_name a)) as)), msgs))"
proof (induction as arbitrary: ops)
  case Nil
  then show ?case by simp
next
  case (Cons a as)
  show ?case
  proof (cases "unsafeName (kagent_name a)")
    case True
    with unsafe_throws[OF True, of "''agent''"] show ?thesis by auto
  next
    case False
    with Cons.prems have "\<exists>a\<in>set as. unsafeName (kagent_name a)" by auto
    from Cons.IH[OF this, of "ops @ agentOps paths a"] False show ?thesis
      by (simp add: writeAgents_step del: writeAgents.simps(2))
  qed
qed

lemma writeGeneratedSkills_abort:
  "\<exists>s\<in>set sks. unsafeName (kskill_name s) \<Longrightarrow>
     \<exists>err. writeGeneratedSkills paths sks (ops, msgs) =
        Inl (err, (ops @ map (skillOp paths)
                     (takeWhile (\<lambda>s. \<not> unsafeName (kskill_name s)) sks), msgs))"
proof (induction sks arbitrary: ops)
  case Nil
  then show ?case by simp
next
  case (Cons a as)
  show ?case
  proof (cases "unsafeName (kskill_name a)")
    case True
    with unsafe_throws[OF True, of "''skill''"] show ?thesis by auto
  next
    case False
    with Cons.prems have "\<exists>a\<in>set as. unsafeName (kskill_name a)" by auto
    from Cons.IH[OF this, of "ops @ [skillOp paths a]"] False show ?thesis
      by (simp add: writeGeneratedSkills_step del: writeGeneratedSkills.simps(2))
  qed
qed

lemma writeSteeringFiles_abort:
  "\<exists>s\<in>set fs. unsafeName (steering_name s) \<Longrightarrow>
     \<exists>err. writeSteeringFiles paths fs (ops, msgs) =
        Inl (err, (ops @ map (steeringOp paths)
                     (takeWhile (\<lambda>s. \<not> unsafeName (steering_name s)) fs), msgs))"
proof (induction fs arbitrary: ops)
  case Nil
  then show ?case by simp
next
  case (Cons a as)
  show ?case
  proof (cases "unsafeName (steering_name a)")
    case True
    with unsafe_throws[OF True, of "''steering file''"] show ?thesis by auto
  next
    case False
    with Cons.prems have "\<exists>a\<in>set as. unsafeName (steering_name a)" by auto
    from Cons.IH[OF this, of "ops @ [steeringOp paths a]"] False show ?thesis
      by (simp add: writeSteeringFiles_step del: writeSteeringFiles.simps(2))
  qed
qed

lemma writeSkillDirs_abort:
  "\<exists>d\<in>set ds. unsafeName (kdir_name d) \<Longrightarrow>
     \<exists>err. writeSkillDirs resolve paths ds (ops, msgs) =
        Inl (err,
          (ops @ map (copyOp paths) (filter (\<lambda>d. inside resolve paths (kdir_name d))
                   (takeWhile (\<lambda>d. \<not> unsafeName (kdir_name d)) ds)),
           msgs @ map (\<lambda>d. escapeWarning (kdir_name d))
                    (filter (\<lambda>d. \<not> inside resolve paths (kdir_name d))
                       (takeWhile (\<lambda>d. \<not> unsafeName (kdir_name d)) ds))))"
proof (induction ds arbitrary: ops msgs)
  case Nil
  then show ?case by simp
next
  case (Cons a as)
  show ?case
  proof (cases "unsafeName (kdir_name a)")
    case True
    with unsafe_throws[OF True, of "''skill directory''"] show ?thesis by auto
  next
    case False
    with Cons.prems have e: "\<exists>a\<in>set as. unsafeName (kdir_name a)" by auto
    show ?thesis
    proof (cases "inside resolve paths (kdir_name a)")
      case True
      from Cons.IH[OF e, of "ops @ [copyOp paths a]" msgs] False True show ?thesis
        by (simp add: writeSkillDirs_step del: writeSkillDirs.simps(2))
    next
      case i: False
      from Cons.IH[OF e, of ops "msgs @ [escapeWarning (kdir_name a)]"] False i show ?thesis
        by (simp add: writeSkillDirs_step del: writeSkillDirs.simps(2))
    qed
  qed
qed

text \<open>The whole write, when it throws: the state at the throw is the state that writing the
  bundle cut off before the first rejected record ends in.\<close>

lemma takeWhile_safe: "\<forall>x\<in>set (takeWhile (\<lambda>x. \<not> P x) xs). \<not> P x"
  by (auto dest: set_takeWhileD)

lemma writeMcpServers_none: "writeMcpServers existing backupPath paths [] st = st"
  by (simp add: writeMcpServers_def)

lemma unsafe_write_prefix:
  assumes "(\<exists>a\<in>set (agents bundle). unsafeName (kagent_name a))
           \<or> (\<exists>s\<in>set (generatedSkills bundle). unsafeName (kskill_name s))
           \<or> (\<exists>d\<in>set (skillDirs bundle). unsafeName (kdir_name d))
           \<or> (\<exists>f\<in>set (steeringFiles bundle). unsafeName (steering_name f))"
  shows "\<exists>err st. writeKiroBundle resolve existing backupPath outputRoot bundle = Inl (err, st)
           \<and> writeKiroBundle resolve existing backupPath outputRoot (beforeUnsafe bundle) = Inr st"
proof -
  let ?paths = "resolveKiroPaths outputRoot"
  let ?o = "[EnsureDir (kiroDir ?paths)]"
  show ?thesis
  proof (cases "\<exists>a\<in>set (agents bundle). unsafeName (kagent_name a)")
    case True
    let ?pre = "takeWhile (\<lambda>a. \<not> unsafeName (kagent_name a)) (agents bundle)"
    from writeAgents_abort[OF True, of ?paths ?o "[]"] obtain err where
      e: "writeAgents ?paths (agents bundle) (?o, []) =
            Inl (err, (?o @ concat (map (agentOps ?paths) ?pre), []))" by blast
    have p: "writeAgents ?paths ?pre (?o, []) = Inr (?o @ concat (map (agentOps ?paths) ?pre), [])"
      by (rule writeAgents_ops) (rule takeWhile_safe)
    from e have "writeKiroBundle resolve existing backupPath outputRoot bundle =
        Inl (err, (?o @ concat (map (agentOps ?paths) ?pre), []))"
      by (simp add: writeKiroBundle_def Let_def)
    moreover from p True
    have "writeKiroBundle resolve existing backupPath outputRoot (beforeUnsafe bundle) =
        Inr (?o @ concat (map (agentOps ?paths) ?pre), [])"
      by (simp add: writeKiroBundle_def beforeUnsafe_def Let_def writeMcpServers_none)
    ultimately show ?thesis by blast
  next
    case sa: False
    then have a: "writeAgents ?paths (agents bundle) (?o, []) =
        Inr (?o @ concat (map (agentOps ?paths) (agents bundle)), [])"
      by (intro writeAgents_ops) simp
    let ?o1 = "?o @ concat (map (agentOps ?paths) (agents bundle))"
    show ?thesis
    proof (cases "\<exists>s\<in>set (generatedSkills bundle). unsafeName (kskill_name s)")
      case True
      let ?pre = "takeWhile (\<lambda>s. \<not> unsafeName (kskill_name s)) (generatedSkills bundle)"
      from writeGeneratedSkills_abort[OF True, of ?paths ?o1 "[]"] obtain err where
        e: "writeGeneratedSkills ?paths (generatedSkills bundle) (?o1, []) =
              Inl (err, (?o1 @ map (skillOp ?paths) ?pre, []))" by blast
      have p: "writeGeneratedSkills ?paths ?pre (?o1, []) = Inr (?o1 @ map (skillOp ?paths) ?pre, [])"
        by (rule writeGeneratedSkills_ops) (rule takeWhile_safe)
      from a e have "writeKiroBundle resolve existing backupPath outputRoot bundle =
          Inl (err, (?o1 @ map (skillOp ?paths) ?pre, []))"
        by (simp add: writeKiroBundle_def Let_def)
      moreover from a p sa True
      have "writeKiroBundle resolve existing backupPath outputRoot (beforeUnsafe bundle) =
          Inr (?o1 @ map (skillOp ?paths) ?pre, [])"
        by (simp add: writeKiroBundle_def beforeUnsafe_def Let_def writeMcpServers_none)
      ultimately show ?thesis by blast
    next
      case sg: False
      then have g: "writeGeneratedSkills ?paths (generatedSkills bundle) (?o1, []) =
          Inr (?o1 @ map (skillOp ?paths) (generatedSkills bundle), [])"
        by (intro writeGeneratedSkills_ops) simp
      let ?o2 = "?o1 @ map (skillOp ?paths) (generatedSkills bundle)"
      show ?thesis
      proof (cases "\<exists>d\<in>set (skillDirs bundle). unsafeName (kdir_name d)")
        case True
        let ?pre = "takeWhile (\<lambda>d. \<not> unsafeName (kdir_name d)) (skillDirs bundle)"
        let ?st = "(?o2 @ map (copyOp ?paths)
                        (filter (\<lambda>d. inside resolve ?paths (kdir_name d)) ?pre),
                    [] @ map (\<lambda>d. escapeWarning (kdir_name d))
                        (filter (\<lambda>d. \<not> inside resolve ?paths (kdir_name d)) ?pre))"
        from writeSkillDirs_abort[OF True, of resolve ?paths ?o2 "[]"] obtain err where
          e: "writeSkillDirs resolve ?paths (skillDirs bundle) (?o2, []) = Inl (err, ?st)"
          by blast
        have p: "writeSkillDirs resolve ?paths ?pre (?o2, []) = Inr ?st"
          by (rule writeSkillDirs_ops) (rule takeWhile_safe)
        from a g e have "writeKiroBundle resolve existing backupPath outputRoot bundle =
            Inl (err, ?st)"
          by (simp add: writeKiroBundle_def Let_def)
        moreover from a g p sa sg True
        have "writeKiroBundle resolve existing backupPath outputRoot (beforeUnsafe bundle) =
            Inr ?st"
          by (simp add: writeKiroBundle_def beforeUnsafe_def Let_def writeMcpServers_none)
        ultimately show ?thesis by blast
      next
        case sd: False
        let ?st3 = "(?o2 @ map (copyOp ?paths)
                        (filter (\<lambda>d. inside resolve ?paths (kdir_name d)) (skillDirs bundle)),
                    [] @ map (\<lambda>d. escapeWarning (kdir_name d))
                        (filter (\<lambda>d. \<not> inside resolve ?paths (kdir_name d)) (skillDirs bundle)))"
        from sd have d: "writeSkillDirs resolve ?paths (skillDirs bundle) (?o2, []) = Inr ?st3"
          by (intro writeSkillDirs_ops) simp
        from assms sa sg sd
        have True: "\<exists>f\<in>set (steeringFiles bundle). unsafeName (steering_name f)" by blast
        let ?pre = "takeWhile (\<lambda>f. \<not> unsafeName (steering_name f)) (steeringFiles bundle)"
        let ?st = "(fst ?st3 @ map (steeringOp ?paths) ?pre, snd ?st3)"
        from writeSteeringFiles_abort[OF True, of ?paths "fst ?st3" "snd ?st3"] obtain err where
          e: "writeSteeringFiles ?paths (steeringFiles bundle) ?st3 = Inl (err, ?st)"
          by auto
        have "writeSteeringFiles ?paths ?pre (fst ?st3, snd ?st3) = Inr ?st"
          by (rule writeSteeringFiles_ops) (rule takeWhile_safe)
        then have p: "writeSteeringFiles ?paths ?pre ?st3 = Inr ?st" by simp
        from a g d e have "writeKiroBundle resolve existing backupPath outputRoot bundle =
            Inl (err, ?st)"
          by (simp add: writeKiroBundle_def Let_def)
        moreover from a g d p sa sg sd True
        have "writeKiroBundle resolve existing backupPath outputRoot (beforeUnsafe bundle) =
            Inr ?st"
          by (simp add: writeKiroBundle_def beforeUnsafe_def Let_def writeMcpServers_none)
        ultimately show ?thesis by blast
      qed
    qed
  qed
qed

text \<open>The whole write, when no identifier is rejected.\<close>

lemma writeMcpServers_shape:
  "\<exists>extra more. writeMcpServers existing backupPath paths servers (ops, msgs)
       = (ops @ extra, msgs @ more) \<and> (\<forall>op\<in>set extra. isSettingsOp op)"
  by (cases existing) (auto simp: writeMcpServers_def Let_def)

lemma writeKiroBundle_ops:
  assumes a: "\<forall>a\<in>set (agents b). \<not> unsafeName (kagent_name a)"
    and g: "\<forall>s\<in>set (generatedSkills b). \<not> unsafeName (kskill_name s)"
    and d: "\<forall>d\<in>set (skillDirs b). \<not> unsafeName (kdir_name d)"
    and f: "\<forall>f\<in>set (steeringFiles b). \<not> unsafeName (steering_name f)"
  shows "writeKiroBundle resolve existing backupPath outputRoot b =
     Inr (writeMcpServers existing backupPath (resolveKiroPaths outputRoot) (mcpServers b)
            ([EnsureDir (kiroDir (resolveKiroPaths outputRoot))]
               @ concat (map (agentOps (resolveKiroPaths outputRoot)) (agents b))
               @ map (skillOp (resolveKiroPaths outputRoot)) (generatedSkills b)
               @ map (copyOp (resolveKiroPaths outputRoot))
                   (filter (\<lambda>d. inside resolve (resolveKiroPaths outputRoot) (kdir_name d))
                      (skillDirs b))
               @ map (steeringOp (resolveKiroPaths outputRoot)) (steeringFiles b),
             map (\<lambda>d. escapeWarning (kdir_name d))
               (filter (\<lambda>d. \<not> inside resolve (resolveKiroPaths outputRoot) (kdir_name d))
                  (skillDirs b))))"
  by (simp add: writeKiroBundle_def Let_def writeAgents_ops[OF a] writeGeneratedSkills_ops[OF g]
      writeSkillDirs_ops[OF d] writeSteeringFiles_ops[OF f])

lemma filter_copy_agentOps: "filter isCopyDir (concat (map (agentOps paths) as)) = []"
  by (induction as) (simp_all add: agentOps_def)

lemma filter_copy_skillOp: "filter isCopyDir (map (skillOp paths) sks) = []"
  by (induction sks) (simp_all add: skillOp_def)

lemma filter_copy_steeringOp: "filter isCopyDir (map (steeringOp paths) fs) = []"
  by (induction fs) (simp_all add: steeringOp_def)

lemma filter_copy_copyOp: "filter isCopyDir (map (copyOp paths) ds) = map (copyOp paths) ds"
  by (induction ds) (simp_all add: copyOp_def)

lemma filter_copy_settings: "\<forall>op\<in>set extra. isSettingsOp op \<Longrightarrow> filter isCopyDir extra = []"
proof (induction extra)
  case Nil
  show ?case by simp
next
  case (Cons op extra)
  then show ?case by (cases op) simp_all
qed

lemma writeKiroBundle_copies:
  assumes a: "\<forall>a\<in>set (agents b). \<not> unsafeName (kagent_name a)"
    and g: "\<forall>s\<in>set (generatedSkills b). \<not> unsafeName (kskill_name s)"
    and d: "\<forall>d\<in>set (skillDirs b). \<not> unsafeName (kdir_name d)"
    and f: "\<forall>f\<in>set (steeringFiles b). \<not> unsafeName (steering_name f)"
  shows "\<exists>ops msgs. writeKiroBundle resolve existing backupPath outputRoot b = Inr (ops, msgs)
           \<and> filter isCopyDir ops =
               map (copyOp (resolveKiroPaths outputRoot))
                 (filter (\<lambda>d. inside resolve (resolveKiroPaths outputRoot) (kdir_name d))
                    (skillDirs b))
           \<and> (\<forall>d\<in>set (skillDirs b).
                 \<not> inside resolve (resolveKiroPaths outputRoot) (kdir_name d)
                 \<longrightarrow> escapeWarning (kdir_name d) \<in> set msgs)"
proof -
  let ?paths = "resolveKiroPaths outputRoot"
  let ?ops = "[EnsureDir (kiroDir ?paths)]
               @ concat (map (agentOps ?paths) (agents b))
               @ map (skillOp ?paths) (generatedSkills b)
               @ map (copyOp ?paths)
                   (filter (\<lambda>d. inside resolve ?paths (kdir_name d)) (skillDirs b))
               @ map (steeringOp ?paths) (steeringFiles b)"
  let ?msgs = "map (\<lambda>d. escapeWarning (kdir_name d))
               (filter (\<lambda>d. \<not> inside resolve ?paths (kdir_name d)) (skillDirs b))"
  from writeMcpServers_shape[of existing backupPath ?paths "mcpServers b" ?ops ?msgs]
  obtain extra more where
    m: "writeMcpServers existing backupPath ?paths (mcpServers b) (?ops, ?msgs)
          = (?ops @ extra, ?msgs @ more)"
    and s: "\<forall>op\<in>set extra. isSettingsOp op" by blast
  have w: "writeKiroBundle resolve existing backupPath outputRoot b
             = Inr (?ops @ extra, ?msgs @ more)"
    unfolding writeKiroBundle_ops[OF a g d f] m ..
  have c: "filter isCopyDir (?ops @ extra) =
             map (copyOp ?paths) (filter (\<lambda>d. inside resolve ?paths (kdir_name d)) (skillDirs b))"
    by (simp add: filter_copy_agentOps filter_copy_skillOp filter_copy_steeringOp
        filter_copy_copyOp filter_copy_settings[OF s])
  have e: "\<forall>d\<in>set (skillDirs b). \<not> inside resolve ?paths (kdir_name d)
             \<longrightarrow> escapeWarning (kdir_name d) \<in> set (?msgs @ more)"
    by auto
  from w c e show ?thesis by blast
qed

lemma skillFiles_Nil: "skillFiles [] = []"
  by (simp add: skillFiles_def)

lemma skillFiles_Cons: "skillFiles (op # ops) = skillFile op @ skillFiles ops"
  by (simp add: skillFiles_def)

lemma skillFiles_append: "skillFiles (xs @ ys) = skillFiles xs @ skillFiles ys"
  by (simp add: skillFiles_def)

lemma skillFiles_agentOps:
  "\<forall>a\<in>set as. kagent_name a \<noteq> ''SKILL'' \<Longrightarrow> skillFiles (concat (map (agentOps paths) as)) = []"
  by (induction as) (simp_all add: agentOps_def skillFiles_def)

lemma skillFiles_skillOp:
  "skillFiles (map (skillOp paths) sks) =
     map (\<lambda>k. skillsDir paths @ [kskill_name k, ''SKILL.md'']) sks"
  by (induction sks) (simp_all add: skillOp_def skillFiles_def)

lemma skillFiles_copyOp: "skillFiles (map (copyOp paths) ds) = []"
  by (induction ds) (simp_all add: copyOp_def skillFiles_def)

lemma skillFiles_steeringOp:
  "\<forall>f\<in>set fs. steering_name f \<noteq> ''SKILL'' \<Longrightarrow> skillFiles (map (steeringOp paths) fs) = []"
  by (induction fs) (simp_all add: steeringOp_def skillFiles_def)

lemma skillFiles_settings: "\<forall>op\<in>set extra. isSettingsOp op \<Longrightarrow> skillFiles extra = []"
proof (induction extra)
  case Nil
  show ?case by (simp add: skillFiles_def)
next
  case (Cons op extra)
  then show ?case by (cases op) (simp_all add: skillFiles_def)
qed

lemma writeKiroBundle_dirs_abort:
  assumes a: "\<forall>a\<in>set (agents b). \<not> unsafeName (kagent_name a)"
    and g: "\<forall>s\<in>set (generatedSkills b). \<not> unsafeName (kskill_name s)"
    and d: "\<exists>d\<in>set (skillDirs b). unsafeName (kdir_name d)"
  shows "\<exists>err msgs. writeKiroBundle resolve existing backupPath outputRoot b =
     Inl (err,
          ([EnsureDir (kiroDir (resolveKiroPaths outputRoot))]
               @ concat (map (agentOps (resolveKiroPaths outputRoot)) (agents b))
               @ map (skillOp (resolveKiroPaths outputRoot)) (generatedSkills b)
               @ map (copyOp (resolveKiroPaths outputRoot))
                   (filter (\<lambda>d. inside resolve (resolveKiroPaths outputRoot) (kdir_name d))
                      (takeWhile (\<lambda>d. \<not> unsafeName (kdir_name d)) (skillDirs b))),
           msgs))"
proof -
  let ?paths = "resolveKiroPaths outputRoot"
  let ?o2 = "[EnsureDir (kiroDir ?paths)] @ concat (map (agentOps ?paths) (agents b))
               @ map (skillOp ?paths) (generatedSkills b)"
  from writeSkillDirs_abort[OF d, of resolve ?paths ?o2 "[]"] obtain err where
    e: "writeSkillDirs resolve ?paths (skillDirs b) (?o2, []) =
          Inl (err, (?o2 @ map (copyOp ?paths)
                        (filter (\<lambda>d. inside resolve ?paths (kdir_name d))
                           (takeWhile (\<lambda>d. \<not> unsafeName (kdir_name d)) (skillDirs b))),
                    [] @ map (\<lambda>d. escapeWarning (kdir_name d))
                        (filter (\<lambda>d. \<not> inside resolve ?paths (kdir_name d))
                           (takeWhile (\<lambda>d. \<not> unsafeName (kdir_name d)) (skillDirs b)))))"
    by blast
  then show ?thesis
    by (simp add: writeKiroBundle_def Let_def writeAgents_ops[OF a] writeGeneratedSkills_ops[OF g])
qed

lemma writeKiroBundle_skillFiles:
  assumes a: "\<forall>a\<in>set (agents b). \<not> unsafeName (kagent_name a)"
    and g: "\<forall>s\<in>set (generatedSkills b). \<not> unsafeName (kskill_name s)"
    and f: "\<forall>f\<in>set (steeringFiles b). \<not> unsafeName (steering_name f)"
    and an: "\<forall>a\<in>set (agents b). kagent_name a \<noteq> ''SKILL''"
    and fn: "\<forall>f\<in>set (steeringFiles b). steering_name f \<noteq> ''SKILL''"
  shows "skillFiles (finalOps (writeKiroBundle resolve existing backupPath outputRoot b)) =
           map (\<lambda>k. skillsDir (resolveKiroPaths outputRoot) @ [kskill_name k, ''SKILL.md''])
               (generatedSkills b)"
proof (cases "\<exists>d\<in>set (skillDirs b). unsafeName (kdir_name d)")
  case True
  from writeKiroBundle_dirs_abort[OF a g True, of resolve existing backupPath outputRoot]
  obtain err msgs where "writeKiroBundle resolve existing backupPath outputRoot b =
     Inl (err,
          ([EnsureDir (kiroDir (resolveKiroPaths outputRoot))]
               @ concat (map (agentOps (resolveKiroPaths outputRoot)) (agents b))
               @ map (skillOp (resolveKiroPaths outputRoot)) (generatedSkills b)
               @ map (copyOp (resolveKiroPaths outputRoot))
                   (filter (\<lambda>d. inside resolve (resolveKiroPaths outputRoot) (kdir_name d))
                      (takeWhile (\<lambda>d. \<not> unsafeName (kdir_name d)) (skillDirs b))),
           msgs))" by blast
  then show ?thesis
    by (simp add: skillFiles_Nil skillFiles_Cons skillFiles_append skillFiles_agentOps[OF an]
        skillFiles_skillOp skillFiles_copyOp)
next
  case False
  then have d: "\<forall>d\<in>set (skillDirs b). \<not> unsafeName (kdir_name d)" by simp
  let ?paths = "resolveKiroPaths outputRoot"
  let ?ops = "[EnsureDir (kiroDir ?paths)]
               @ concat (map (agentOps ?paths) (agents b))
               @ map (skillOp ?paths) (generatedSkills b)
               @ map (copyOp ?paths)
                   (filter (\<lambda>d. inside resolve ?paths (kdir_name d)) (skillDirs b))
               @ map (steeringOp ?paths) (steeringFiles b)"
  let ?msgs = "map (\<lambda>d. escapeWarning (kdir_name d))
               (filter (\<lambda>d. \<not> inside resolve ?paths (kdir_name d)) (skillDirs b))"
  from writeMcpServers_shape[of existing backupPath ?paths "mcpServers b" ?ops ?msgs]
  obtain extra more where
    m: "writeMcpServers existing backupPath ?paths (mcpServers b) (?ops, ?msgs)
          = (?ops @ extra, ?msgs @ more)"
    and s: "\<forall>op\<in>set extra. isSettingsOp op" by blast
  have w: "writeKiroBundle resolve existing backupPath outputRoot b
             = Inr (?ops @ extra, ?msgs @ more)"
    unfolding writeKiroBundle_ops[OF a g d f] m ..
  show ?thesis
    unfolding w
    by (simp add: skillFiles_Nil skillFiles_Cons skillFiles_append skillFiles_agentOps[OF an]
        skillFiles_skillOp skillFiles_copyOp skillFiles_steeringOp[OF fn]
        skillFiles_settings[OF s])
qed

lemma nameChar_not_S: "\<not> isNameChar (CHR ''S'')"
  by (simp add: isNameChar_def isLowerAlpha_def isDigit_def code_def)

lemma normalizeName_not_SKILL: "normalizeName x \<noteq> ''SKILL''"
proof
  assume "normalizeName x = ''SKILL''"
  then have "CHR ''S'' \<in> set (normalizeName x)" by simp
  from normalizeName_chars[OF this] nameChar_not_S show False by simp
qed

lemma convert_agents_not_SKILL:
  "\<forall>a\<in>set (agents (fst (convertClaudeToKiro fmt claudeMd plugin))). kagent_name a \<noteq> ''SKILL''"
  by (auto simp: convert_agents convertAgent_name normalizeName_not_SKILL)

lemma convert_steering_not_SKILL:
  "\<forall>f\<in>set (steeringFiles (fst (convertClaudeToKiro fmt claudeMd plugin))).
     steering_name f \<noteq> ''SKILL''"
  by (auto simp: convertClaudeToKiro_def buildSteeringFiles_def Let_def
        split: prod.splits option.splits if_splits)

lemma convert_agents_safe:
  "\<forall>a\<in>set (agents (fst (convertClaudeToKiro fmt claudeMd plugin))). \<not> unsafeName (kagent_name a)"
  using convert_agents_validate[of fmt claudeMd plugin] by (simp add: validatePathSafe_None)

lemma convert_generated_safe:
  "\<forall>s\<in>set (generatedSkills (fst (convertClaudeToKiro fmt claudeMd plugin))).
     \<not> unsafeName (kskill_name s)"
  using convert_generated_validate[of fmt claudeMd plugin] by (simp add: validatePathSafe_None)

lemma convert_skillFiles:
  "skillFiles (finalOps (writeKiroBundle resolve existing backupPath outputRoot
                           (fst (convertClaudeToKiro fmt claudeMd plugin)))) =
     map (\<lambda>k. skillsDir (resolveKiroPaths outputRoot) @ [kskill_name k, ''SKILL.md''])
         (generatedSkills (fst (convertClaudeToKiro fmt claudeMd plugin)))"
  by (rule writeKiroBundle_skillFiles[OF convert_agents_safe convert_generated_safe
        convert_steering_safe convert_agents_not_SKILL convert_steering_not_SKILL])

lemma unsafe_write_clean:
  assumes un: "unsafeName n"
    and "n \<in> kagent_name ` set (agents bundle) \<union> kskill_name ` set (generatedSkills bundle)
           \<union> kdir_name ` set (skillDirs bundle) \<union> steering_name ` set (steeringFiles bundle)"
  shows "cleanOps (finalOps (writeKiroBundle resolve existing backupPath outputRoot bundle))"
proof -
  let ?paths = "resolveKiroPaths outputRoot"
  let ?r1 = "writeAgents ?paths (agents bundle) ([EnsureDir (kiroDir ?paths)], [])"
  have c0: "cleanOps [EnsureDir (kiroDir ?paths)]" by (simp add: cleanOps_def)
  let ?w = "writeKiroBundle resolve existing backupPath outputRoot bundle"
  have "isl ?w \<and> cleanOps (finalOps ?w)"
  proof (cases ?r1)
    case (Inl e)
    with writeAgents_clean[OF c0, of ?paths "agents bundle" "[]"] show ?thesis
      by (simp add: writeKiroBundle_def Let_def)
  next
    case r1: (Inr st1)
    obtain ops1 msgs1 where st1: "st1 = (ops1, msgs1)" by (cases st1)
    from writeAgents_clean[OF c0, of ?paths "agents bundle" "[]"] r1 st1
    have c1: "cleanOps ops1" and s1: "\<forall>a\<in>set (agents bundle). \<not> unsafeName (kagent_name a)"
      by auto
    let ?r2 = "writeGeneratedSkills ?paths (generatedSkills bundle) (ops1, msgs1)"
    show ?thesis
    proof (cases ?r2)
      case (Inl e)
      with writeGeneratedSkills_clean[OF c1, of ?paths "generatedSkills bundle" msgs1] r1 st1
      show ?thesis by (simp add: writeKiroBundle_def Let_def)
    next
      case r2: (Inr st2)
      obtain ops2 msgs2 where st2: "st2 = (ops2, msgs2)" by (cases st2)
      from writeGeneratedSkills_clean[OF c1, of ?paths "generatedSkills bundle" msgs1] r2 st2
      have c2: "cleanOps ops2"
        and s2: "\<forall>s\<in>set (generatedSkills bundle). \<not> unsafeName (kskill_name s)"
        by auto
      let ?r3 = "writeSkillDirs resolve ?paths (skillDirs bundle) (ops2, msgs2)"
      show ?thesis
      proof (cases ?r3)
        case (Inl e)
        with writeSkillDirs_clean[OF c2, of resolve ?paths "skillDirs bundle" msgs2]
          r1 st1 r2 st2
        show ?thesis by (simp add: writeKiroBundle_def Let_def)
      next
        case r3: (Inr st3)
        obtain ops3 msgs3 where st3: "st3 = (ops3, msgs3)" by (cases st3)
        from writeSkillDirs_clean[OF c2, of resolve ?paths "skillDirs bundle" msgs2] r3 st3
        have c3: "cleanOps ops3"
          and s3: "\<forall>d\<in>set (skillDirs bundle). \<not> unsafeName (kdir_name d)"
          by auto
        let ?r4 = "writeSteeringFiles ?paths (steeringFiles bundle) (ops3, msgs3)"
        show ?thesis
        proof (cases ?r4)
          case (Inl e)
          with writeSteeringFiles_clean[OF c3, of outputRoot "steeringFiles bundle" msgs3]
            r1 st1 r2 st2 r3 st3
          show ?thesis by (simp add: writeKiroBundle_def Let_def)
        next
          case r4: (Inr st4)
          from writeSteeringFiles_clean[OF c3, of outputRoot "steeringFiles bundle" msgs3] r4
          have s4: "\<forall>f\<in>set (steeringFiles bundle). \<not> unsafeName (steering_name f)"
            by auto
          from s1 s2 s3 s4 assms(2) un have False by auto
          then show ?thesis ..
        qed
      qed
    qed
  qed
  then show ?thesis ..
qed

lemma abortedBundle_write:
  "writeKiroBundle concat NoFile [] [''out''] abortedBundle =
     Inl (''skill name contains unsafe path characters: ../evil'',
          ([EnsureDir [''out'', ''.kiro''],
            WriteText [''out'', ''.kiro'', ''skills'', ''plan'', ''SKILL.md''] (''c'' @ newline)],
           []))"
  by (simp add: writeKiroBundle_def resolveKiroPaths_def abortedBundle_def validatePathSafe_def
      Let_def)

text \<open>The first generated skill shows what the registry holds when the commands are
  converted.\<close>

lemma suffixed_neq: "suffixed base i \<noteq> base"
  by (simp add: suffixed_def)

lemma uniqueName_base:
  "(fst (uniqueName base used) = base) = (base \<notin> set used)"
  by (simp add: uniqueName_def Let_def suffixed_neq)

lemma convertCommands_head:
  "kskill_name (hd (fst (convertCommands fmt (c # cs) used names)))
     = fst (uniqueName (normalizeName (command_name c)) used)"
  by (simp add: convertCommandToSkill_def Let_def split: prod.splits)

lemma convert_head_name:
  assumes "plugin_commands plugin = c # cs"
  shows "(kskill_name (hd (generatedSkills (fst (convertClaudeToKiro fmt claudeMd plugin))))
            = normalizeName (command_name c))
         = (normalizeName (command_name c)
              \<notin> (\<lambda>skill. normalizeName (skill_name skill)) ` set (plugin_skills plugin))"
  unfolding convert_generatedSkills assms convertCommands_head uniqueName_base
    reserveSkillNames_set convert_skillDirs
  by (simp add: image_image)

lemma convert_generated_normal:
  assumes "s \<in> set (plugin_skills plugin)" and "normalizeName (skill_name s) = skill_name s"
  shows "skill_name s
           \<notin> set (map kskill_name (generatedSkills (fst (convertClaudeToKiro fmt claudeMd plugin))))"
proof
  assume "skill_name s
           \<in> set (map kskill_name (generatedSkills (fst (convertClaudeToKiro fmt claudeMd plugin))))"
  moreover from assms have "skill_name s \<in> (\<lambda>s. normalizeName (skill_name s)) ` set (plugin_skills plugin)"
    by (metis imageI)
  ultimately show False
    using convert_generated_names[of fmt claudeMd plugin] by blast
qed

lemma startsWith_append_self: "startsWith (n @ rest) n"
  by (induction n) simp_all

lemma inside_concat: "inside concat paths name"
  by (simp add: inside_def startsWith_append_self)

lemma planPlugin_names:
  "map kskill_name (generatedSkills (fst (convertClaudeToKiro bodyOnly None planPlugin)))
     = [''plan-2'', ''plan-3'']"
proof -
  have n: "normalizeName ''Plan'' = ''plan''" "normalizeName ''plan'' = ''plan''"
    by (simp_all add: string_eval)
  have u1: "uniqueName ''plan'' [''plan''] = (''plan-2'', [''plan'', ''plan-2''])"
    by (simp add: uniqueName_def suffixed_def probeIndex.simps showNat.simps digitChar_def setAdd_def Let_def)
  have u2: "uniqueName ''plan'' [''plan'', ''plan-2'']
      = (''plan-3'', [''plan'', ''plan-2'', ''plan-3''])"
    by (simp add: uniqueName_def suffixed_def probeIndex.simps showNat.simps digitChar_def setAdd_def Let_def)
  show ?thesis
    by (simp add: convert_generatedSkills convert_skillDirs planPlugin_def reserveSkillNames_def
        setAdd_def n convertCommandToSkill_def u1 u2 Let_def split: prod.splits)
qed

section \<open>Properties of the agent reference pass\<close>

lemma startsWith_prefix: "startsWith s p = (\<exists>r. s = p @ r)"
  by (induction s p rule: startsWith.induct) auto

lemma includesStr_Cons: "includesStr (c # cs) p \<longleftrightarrow> startsWith (c # cs) p \<or> includesStr cs p"
  by simp

lemma includesStr_tail: "\<not> includesStr (c # cs) (q # p) \<Longrightarrow> \<not> includesStr cs (q # p)"
  by simp

lemma matchAgentRef_Some:
  "matchAgentRef names s = Some n \<Longrightarrow> n \<in> set names \<and> startsWith s n"
  unfolding matchAgentRef_def by (auto simp: find_Some_iff)

lemma agentRefPass_unchanged:
  "\<forall>n\<in>set names. \<not> includesStr body (CHR ''@'' # n) \<Longrightarrow> agentRefPass names body = body"
proof (induction body)
  case Nil
  then show ?case by simp
next
  case (Cons c cs)
  have m: "(if c = CHR ''@'' then matchAgentRef names cs else None) = None"
  proof (cases "c = CHR ''@''")
    case True
    show ?thesis
    proof (cases "matchAgentRef names cs")
      case None
      with True show ?thesis by simp
    next
      case (Some n)
      from matchAgentRef_Some[OF Some] True have "n \<in> set names"
        and "startsWith (c # cs) (CHR ''@'' # n)" by auto
      with Cons.prems have False by auto
      then show ?thesis ..
    qed
  next
    case False
    then show ?thesis by simp
  qed
  from Cons.prems have "\<forall>n\<in>set names. \<not> includesStr cs (CHR ''@'' # n)" by simp
  from Cons.IH[OF this] m show ?case by simp
qed

lemma find_unique:
  assumes "x \<in> set xs" and "P x" and "\<forall>y\<in>set xs. P y \<longrightarrow> y = x"
  shows "find P xs = Some x"
proof -
  from assms(1,2) obtain y where y: "find P xs = Some y"
    by (cases "find P xs") (auto simp: find_None_iff)
  then have "y \<in> set xs" and "P y" by (auto simp: find_Some_iff)
  with assms(3) have "y = x" by blast
  with y show ?thesis by simp
qed

lemma agentRefPass_mention:
  assumes "n \<in> set names"
    and "wordBoundary (Some (last (CHR ''@'' # n))) (headOpt rest)"
    and "\<forall>m\<in>set names. startsWith (n @ rest) m \<longrightarrow> m = n"
  shows "agentRefPass names (CHR ''@'' # n @ rest) =
           ''the '' @ normalizeName n @ '' agent'' @ agentRefPass names rest"
proof -
  have "matchAgentRef names (n @ rest) = Some n"
    unfolding matchAgentRef_def
    using assms by (intro find_unique) (auto simp: startsWith_append_self)
  then show ?thesis by simp
qed

lemma transform_pass5:
  "transformContentForKiro body names =
     (if length names > 0 then agentRefPass names (transformContentForKiro body [])
      else transformContentForKiro body [])"
  by (simp add: transformContentForKiro_def Let_def)

lemma transform_reviewer:
  "transformContentForKiro ''@reviewer please check'' [''reviewer'']
     = ''the reviewer agent please check''"
  by (simp add: transform_eval)

lemma transform_unknown:
  "transformContentForKiro ''@unknown please check'' [''reviewer''] = ''@unknown please check''"
  by (simp add: transform_eval)


section \<open>Properties of the passes\<close>

























































section \<open>Claims\<close>






text \<open>
  C2, as amended. In every conversion run the identifiers of the generated skills, as the
  bundle holds them, are pairwise distinct: each is the normalized command name, or that
  name with a suffix \<open>-2\<close>, \<open>-3\<close>, ... when the name is taken. None of them is the name
  of a pass-through skill whose name is its own normalized form. The writer writes the
  \<^verbatim>\<open>SKILL.md\<close> files of the generated skills, and no others, at pairwise distinct paths,
  so no generated skill overwrites another. The identifier of an agent is the normalized
  form of its name; agent identifiers are not made unique.
\<close>

theorem generated_skill_names_distinct:
  "distinct (map kskill_name (generatedSkills (fst (convertClaudeToKiro fmt claudeMd plugin))))
   \<and> list_all2 (\<lambda>c k. suffixedFrom (normalizeName (command_name c)) (kskill_name k))
        (plugin_commands plugin)
        (generatedSkills (fst (convertClaudeToKiro fmt claudeMd plugin)))
   \<and> (\<forall>s\<in>set (plugin_skills plugin).
         normalizeName (skill_name s) = skill_name s \<longrightarrow>
         skill_name s
           \<notin> set (map kskill_name (generatedSkills (fst (convertClaudeToKiro fmt claudeMd plugin)))))
   \<and> skillFiles (finalOps (writeKiroBundle resolve existing backupPath outputRoot
                             (fst (convertClaudeToKiro fmt claudeMd plugin))))
       = map (\<lambda>k. skillsDir (resolveKiroPaths outputRoot) @ [kskill_name k, ''SKILL.md''])
             (generatedSkills (fst (convertClaudeToKiro fmt claudeMd plugin)))
   \<and> distinct (skillFiles (finalOps (writeKiroBundle resolve existing backupPath outputRoot
                                       (fst (convertClaudeToKiro fmt claudeMd plugin)))))
   \<and> map kagent_name (agents (fst (convertClaudeToKiro fmt claudeMd plugin))) =
        map (\<lambda>a. normalizeName (agent_name a)) (plugin_agents plugin)"
proof -
  let ?b = "fst (convertClaudeToKiro fmt claudeMd plugin)"
  note g = convert_generated_names[of fmt claudeMd plugin]
  from g have 1: "distinct (map kskill_name (generatedSkills ?b))" by (rule conjunct1)
  from g have 2: "list_all2 (\<lambda>c k. suffixedFrom (normalizeName (command_name c)) (kskill_name k))
        (plugin_commands plugin) (generatedSkills ?b)" by (rule conjunct2[THEN conjunct2])
  have 3: "\<forall>s\<in>set (plugin_skills plugin).
         normalizeName (skill_name s) = skill_name s \<longrightarrow>
         skill_name s \<notin> set (map kskill_name (generatedSkills ?b))"
    using convert_generated_normal[of _ plugin fmt claudeMd] by blast
  have 4: "skillFiles (finalOps (writeKiroBundle resolve existing backupPath outputRoot ?b))
       = map (\<lambda>k. skillsDir (resolveKiroPaths outputRoot) @ [kskill_name k, ''SKILL.md''])
             (generatedSkills ?b)"
    by (rule convert_skillFiles)
  have "inj (\<lambda>n. skillsDir (resolveKiroPaths outputRoot) @ [n, ''SKILL.md''])"
    by (rule injI) simp
  with 1 have "distinct (map (\<lambda>n. skillsDir (resolveKiroPaths outputRoot) @ [n, ''SKILL.md''])
                  (map kskill_name (generatedSkills ?b)))"
    by (simp only: distinct_map) (simp add: inj_on_def)
  then have 5: "distinct (skillFiles (finalOps (writeKiroBundle resolve existing backupPath
                                                 outputRoot ?b)))"
    unfolding 4 by (simp add: comp_def)
  have 6: "map kagent_name (agents ?b) =
        map (\<lambda>a. normalizeName (agent_name a)) (plugin_agents plugin)"
    by (rule convert_agent_names)
  from 1 2 3 4 5 6 show ?thesis by blast
qed


text \<open>The theorem at a plugin whose two commands collide with the pass-through skill
  \<open>plan\<close>: they get the suffixes \<open>-2\<close> and \<open>-3\<close> and are written at two paths.\<close>

theorem generated_skill_names_distinct_witness:
  "plugin_skills planPlugin = [\<lparr> skill_name = ''plan'', skill_sourceDir = ''skills/plan'' \<rparr>]
   \<and> map command_name (plugin_commands planPlugin) = [''Plan'', ''plan'']
   \<and> normalizeName ''plan'' = ''plan''
   \<and> map kskill_name (generatedSkills (fst (convertClaudeToKiro bodyOnly None planPlugin)))
        = [''plan-2'', ''plan-3'']
   \<and> ''plan'' \<notin> set (map kskill_name
                         (generatedSkills (fst (convertClaudeToKiro bodyOnly None planPlugin))))
   \<and> skillFiles (finalOps (writeKiroBundle concat NoFile [] [''out'']
                             (fst (convertClaudeToKiro bodyOnly None planPlugin))))
       = [[''out'', ''.kiro'', ''skills'', ''plan-2'', ''SKILL.md''],
          [''out'', ''.kiro'', ''skills'', ''plan-3'', ''SKILL.md'']]"
proof -
  let ?b = "fst (convertClaudeToKiro bodyOnly None planPlugin)"
  have p: "plugin_skills planPlugin = [\<lparr> skill_name = ''plan'', skill_sourceDir = ''skills/plan'' \<rparr>]"
    and c: "map command_name (plugin_commands planPlugin) = [''Plan'', ''plan'']"
    by (simp_all add: planPlugin_def)
  have n: "normalizeName ''plan'' = ''plan''" by (simp add: string_eval)
  note t = generated_skill_names_distinct[where fmt = bodyOnly and claudeMd = None
      and plugin = planPlugin and resolve = concat and existing = NoFile
      and backupPath = "[]" and outputRoot = "[''out'']"]
  from t p n have f: "''plan'' \<notin> set (map kskill_name (generatedSkills ?b))" by simp
  have "skillFiles (finalOps (writeKiroBundle concat NoFile [] [''out''] ?b))
       = map (\<lambda>n. skillsDir (resolveKiroPaths [''out'']) @ [n, ''SKILL.md''])
             (map kskill_name (generatedSkills ?b))"
    using t by (simp add: comp_def)
  then have s: "skillFiles (finalOps (writeKiroBundle concat NoFile [] [''out''] ?b))
       = [[''out'', ''.kiro'', ''skills'', ''plan-2'', ''SKILL.md''],
          [''out'', ''.kiro'', ''skills'', ''plan-3'', ''SKILL.md'']]"
    unfolding planPlugin_names by (simp add: resolveKiroPaths_def)
  from p c n planPlugin_names f s show ?thesis by blast
qed


text \<open>
  C2 as stated fails for agents: the two agents of the example plugin have distinct names
  and the same identifier.
\<close>

theorem agent_names_collide:
  "agent_name (plugin_agents examplePlugin ! 0) \<noteq> agent_name (plugin_agents examplePlugin ! 1)
   \<and> map kagent_name (agents (fst (convertClaudeToKiro bodyOnly None examplePlugin)))
        = [''code-reviewer'', ''code-reviewer'']"
proof -
  have n: "normalizeName ''Code Reviewer'' = ''code-reviewer''"
    "normalizeName ''code-reviewer'' = ''code-reviewer''"
    by (simp_all add: string_eval)
  show ?thesis by (simp add: convert_agent_names examplePlugin_def n)
qed

text \<open>
  C3, as amended. For every agent the prompt body is not empty. For an agent with a
  non-empty capability list it is the heading \<open>## Capabilities\<close> and the capability lines,
  as they are in the source, followed by the transformed source body, with trailing
  whitespace removed: the body is transformed first and the capability list is put before
  the result, so the capability lines do not pass through the transformation. For an agent
  without capabilities it is the transformed body, or the placeholder sentence when that
  is empty.
\<close>

theorem agent_prompt_body:
  "kagent_promptContent (convertAgentToKiroAgent agent knownAgentNames) \<noteq> []
   \<and> (\<forall>caps. agent_capabilities agent = Some caps \<and> caps \<noteq> [] \<longrightarrow>
          kagent_promptContent (convertAgentToKiroAgent agent knownAgentNames) =
            ''## Capabilities''
              @ trimEnd (newline @ joinWith newline (map (\<lambda>c. ''- '' @ c) caps) @ newline @ newline
                         @ transformContentForKiro (trim (agent_body agent)) knownAgentNames))
   \<and> ((agent_capabilities agent = None \<or> agent_capabilities agent = Some []) \<longrightarrow>
          kagent_promptContent (convertAgentToKiroAgent agent knownAgentNames) =
            (if transformContentForKiro (trim (agent_body agent)) knownAgentNames = []
             then ''Instructions converted from the '' @ agent_name agent @ '' agent.''
             else transformContentForKiro (trim (agent_body agent)) knownAgentNames))"
proof -
  let ?t = "transformContentForKiro (trim (agent_body agent)) knownAgentNames"
  let ?p = "kagent_promptContent (convertAgentToKiroAgent agent knownAgentNames)"
  have caps: "?p = ''## Capabilities''
        @ trimEnd (newline @ joinWith newline (map (\<lambda>c. ''- '' @ c) caps) @ newline @ newline @ ?t)"
    if "agent_capabilities agent = Some caps" and "caps \<noteq> []" for caps
    using that
    by (simp add: convertAgentToKiroAgent_def Let_def trim_header del: append_Cons)
  have nocaps: "?p = (if ?t = []
             then ''Instructions converted from the '' @ agent_name agent @ '' agent.'' else ?t)"
    if "agent_capabilities agent = None \<or> agent_capabilities agent = Some []"
    using that by (auto simp: convertAgentToKiroAgent_def Let_def)
  have ne: "?p \<noteq> []"
  proof (cases "agent_capabilities agent")
    case None
    with nocaps show ?thesis by auto
  next
    case (Some caps)
    show ?thesis
    proof (cases "caps = []")
      case True
      with Some nocaps show ?thesis by auto
    next
      case False
      from caps[OF Some False] show ?thesis by simp
    qed
  qed
  from ne caps nocaps show ?thesis by blast
qed


text \<open>The theorem at an agent with one capability.\<close>

theorem agent_prompt_body_witness:
  "agent_capabilities capableAgent = Some [''Run /plan'']
   \<and> [''Run /plan''] \<noteq> []
   \<and> kagent_promptContent (convertAgentToKiroAgent capableAgent [])
       = ''## Capabilities'' @ newline @ ''- Run /plan'' @ newline @ newline @ ''x''"
proof -
  have c: "agent_capabilities capableAgent = Some [''Run /plan'']"
    and b: "agent_body capableAgent = ''x''"
    by (simp_all add: capableAgent_def)
  have t: "trimEnd (newline @ ''- Run /plan'' @ newline @ newline @ ''x'')
      = newline @ ''- Run /plan'' @ newline @ newline @ ''x''"
    by (simp add: trimEnd_def newline_def isSpace_def code_def)
  from agent_prompt_body[of capableAgent "[]"] c
  have "kagent_promptContent (convertAgentToKiroAgent capableAgent [])
      = ''## Capabilities'' @ trimEnd (newline @ joinWith newline (map (\<lambda>c. ''- '' @ c) [''Run /plan''])
          @ newline @ newline @ transformContentForKiro (trim (agent_body capableAgent)) [])"
    by blast
  with c b t transform_x show ?thesis by simp
qed


text \<open>
  C3 as stated fails: the capability line \<open>- Run /plan\<close> stands in the prompt body as it
  is, while the transformation of the prefixed text rewrites it to
  \<open>- Run the plan skill\<close>.
\<close>

theorem capabilities_not_transformed:
  "kagent_promptContent (convertAgentToKiroAgent capableAgent [])
       = ''## Capabilities'' @ newline @ ''- Run /plan'' @ newline @ newline @ ''x''
   \<and> transformContentForKiro
        (''## Capabilities'' @ newline @ ''- Run /plan'' @ newline @ newline @ agent_body capableAgent) []
       = ''## Capabilities'' @ newline @ ''- Run the plan skill'' @ newline @ newline @ ''x''"
proof -
  have b: "agent_body capableAgent = ''x''"
    by (simp add: capableAgent_def)
  have t: "trim (''## Capabilities'' @ newline @ ''- Run /plan'' @ newline @ newline @ ''x'')
      = ''## Capabilities'' @ newline @ ''- Run /plan'' @ newline @ newline @ ''x''"
    by (simp add: trim_def trimStart_def trimEnd_def newline_def isSpace_def code_def)
  have "kagent_promptContent (convertAgentToKiroAgent capableAgent [])
       = ''## Capabilities'' @ newline @ ''- Run /plan'' @ newline @ newline @ ''x''"
    using t transform_x
    by (simp add: convertAgentToKiroAgent_def capableAgent_def Let_def)
  with transform_prefixed b show ?thesis by simp
qed

text \<open>
  C4. For every bundle and every agent, generated skill, pass-through skill directory or
  steering file of it whose identifier contains \<open>..\<close>, \<open>/\<close> or a backslash, the writer
  throws. The operations and messages at the throw are exactly those of writing the bundle
  cut off before its first record with such an identifier: the records before it, in the
  order of the writer, are written, and nothing of that record, of any record behind it or
  of the settings file is. In particular no file of a record with the given identifier has
  been written, and the settings file has been neither backed up nor written.
\<close>

theorem unsafe_identifier_aborts_write:
  assumes "includesStr n ''..'' \<or> includesStr n ''/'' \<or> includesStr n [CHR 0x5C]"
    and "n \<in> kagent_name ` set (agents bundle) \<union> kskill_name ` set (generatedSkills bundle)
           \<union> kdir_name ` set (skillDirs bundle) \<union> steering_name ` set (steeringFiles bundle)"
  shows "\<exists>err ops msgs.
           writeKiroBundle resolve existing backupPath outputRoot bundle = Inl (err, (ops, msgs))
           \<and> writeKiroBundle resolve existing backupPath outputRoot (beforeUnsafe bundle)
               = Inr (ops, msgs)
           \<and> (\<forall>op\<in>set ops. \<not> recordFile n op)
           \<and> (\<forall>op\<in>set ops. \<not> isSettingsOp op)"
proof -
  let ?w = "writeKiroBundle resolve existing backupPath outputRoot bundle"
  from assms(1) have un: "unsafeName n" by (simp add: unsafeName_def)
  with assms(2)
  have "(\<exists>a\<in>set (agents bundle). unsafeName (kagent_name a))
           \<or> (\<exists>s\<in>set (generatedSkills bundle). unsafeName (kskill_name s))
           \<or> (\<exists>d\<in>set (skillDirs bundle). unsafeName (kdir_name d))
           \<or> (\<exists>f\<in>set (steeringFiles bundle). unsafeName (steering_name f))"
    by auto
  from unsafe_write_prefix[OF this, of resolve existing backupPath outputRoot]
  obtain err st where w: "?w = Inl (err, st)"
    and p: "writeKiroBundle resolve existing backupPath outputRoot (beforeUnsafe bundle) = Inr st"
    by blast
  obtain ops msgs where st: "st = (ops, msgs)" by (cases st)
  from unsafe_write_clean[OF un assms(2), of resolve existing backupPath outputRoot] w st
  have "cleanOps ops" by simp
  with un have "(\<forall>op\<in>set ops. \<not> recordFile n op) \<and> (\<forall>op\<in>set ops. \<not> isSettingsOp op)"
    unfolding cleanOps_def by blast
  with w p st show ?thesis by blast
qed


text \<open>The theorem at a bundle whose second generated skill is named \<open>../evil\<close>: the
  generated skill before it is written; the generated skill, the skill directory, the
  steering file and the settings behind it are not.\<close>

theorem unsafe_identifier_aborts_write_witness:
  "(includesStr ''../evil'' ''..'' \<or> includesStr ''../evil'' ''/''
      \<or> includesStr ''../evil'' [CHR 0x5C])
   \<and> ''../evil'' \<in> kagent_name ` set (agents abortedBundle)
         \<union> kskill_name ` set (generatedSkills abortedBundle)
         \<union> kdir_name ` set (skillDirs abortedBundle)
         \<union> steering_name ` set (steeringFiles abortedBundle)
   \<and> map kskill_name (generatedSkills abortedBundle) = [''plan'', ''../evil'', ''late'']
   \<and> (\<exists>err ops msgs.
         writeKiroBundle concat NoFile [] [''out''] abortedBundle = Inl (err, (ops, msgs))
         \<and> writeKiroBundle concat NoFile [] [''out''] (beforeUnsafe abortedBundle) = Inr (ops, msgs)
         \<and> ops = [EnsureDir [''out'', ''.kiro''],
                  WriteText [''out'', ''.kiro'', ''skills'', ''plan'', ''SKILL.md'']
                    (''c'' @ newline)])"
proof -
  have h1: "includesStr ''../evil'' ''..'' \<or> includesStr ''../evil'' ''/''
      \<or> includesStr ''../evil'' [CHR 0x5C]"
    by simp
  have h2: "''../evil'' \<in> kagent_name ` set (agents abortedBundle)
         \<union> kskill_name ` set (generatedSkills abortedBundle)
         \<union> kdir_name ` set (skillDirs abortedBundle)
         \<union> steering_name ` set (steeringFiles abortedBundle)"
    by (simp add: abortedBundle_def)
  have h3: "map kskill_name (generatedSkills abortedBundle) = [''plan'', ''../evil'', ''late'']"
    by (simp add: abortedBundle_def)
  from unsafe_identifier_aborts_write[OF h1 h2, where resolve = concat and existing = NoFile
      and backupPath = "[]" and outputRoot = "[''out'']"]
  obtain err ops msgs where
    "writeKiroBundle concat NoFile [] [''out''] abortedBundle = Inl (err, (ops, msgs))"
    "writeKiroBundle concat NoFile [] [''out''] (beforeUnsafe abortedBundle) = Inr (ops, msgs)"
    by blast
  with abortedBundle_write h1 h2 h3 show ?thesis by simp
qed

text \<open>
  C5. When the write of a bundle with at least one server (an object, so the names are
  distinct) goes through, its last operation writes the settings file with an object in
  which every key other than \<open>mcpServers\<close> has the value it has in the existing
  configuration, and \<open>mcpServers\<close> is an object that gives every server of the bundle its
  entry of the bundle and every other name the value it has among the existing servers.
  The existing configuration of a missing file and of a file that cannot be parsed is
  empty: over a file that cannot be parsed the write goes through and writes what it writes
  without a file.
\<close>

theorem mcp_settings_merged:
  assumes "writeKiroBundle resolve existing backupPath outputRoot bundle = Inr (ops, msgs)"
    and "mcpServers bundle \<noteq> []"
    and "distinct (map fst (mcpServers bundle))"
  shows "\<exists>merged servers.
           ops \<noteq> []
           \<and> last ops = WriteJson (settingsDir (resolveKiroPaths outputRoot) @ [''mcp.json''])
                           (JObj merged)
           \<and> (\<forall>key. key \<noteq> ''mcpServers'' \<longrightarrow>
                 map_of merged key =
                   map_of (case existing of
                             NoFile \<Rightarrow> [] | Unparseable \<Rightarrow> [] | Parsed config \<Rightarrow> config) key)
           \<and> map_of merged ''mcpServers'' = Some (JObj servers)
           \<and> (\<forall>name server. map_of (mcpServers bundle) name = Some server \<longrightarrow>
                 map_of servers name = Some (mcpServerJson server))
           \<and> (\<forall>name config old.
                 existing = Parsed config \<and> map_of config ''mcpServers'' = Some (JObj old)
                 \<and> map_of (mcpServers bundle) name = None \<longrightarrow>
                 map_of servers name = map_of old name)
           \<and> (existing = Unparseable \<longrightarrow>
                 (\<exists>ops0 msgs0.
                    writeKiroBundle resolve NoFile backupPath outputRoot bundle = Inr (ops0, msgs0)
                    \<and> ops0 \<noteq> [] \<and> last ops0 = last ops))"
proof -
  let ?paths = "resolveKiroPaths outputRoot"
  let ?cfg = "parsedConfig existing"
  let ?merged = "mergeMcpConfig ?cfg (mcpServers bundle)"
  let ?servers = "spread (existingServersOf ?cfg)
                   (map (\<lambda>(name, server). (name, mcpServerJson server)) (mcpServers bundle))"
  from writeKiroBundle_Inr[OF assms(1)] obtain st4 where
    st: "(ops, msgs) = writeMcpServers existing backupPath ?paths (mcpServers bundle) st4"
    and all: "\<And>existing'. writeKiroBundle resolve existing' backupPath outputRoot bundle =
                 Inr (writeMcpServers existing' backupPath ?paths (mcpServers bundle) st4)"
    by blast
  obtain ops4 msgs4 where st4: "st4 = (ops4, msgs4)" by (cases st4)
  from writeMcpServers_last[OF assms(2), of existing backupPath ?paths ops4 msgs4] st st4
  have 1: "ops \<noteq> []"
    and 2: "last ops = WriteJson (settingsDir ?paths @ [''mcp.json'']) (JObj ?merged)"
    by auto
  have 3: "\<forall>key. key \<noteq> ''mcpServers'' \<longrightarrow> map_of ?merged key = map_of ?cfg key"
    by (simp add: mergeMcpConfig_other)
  have 4: "map_of ?merged ''mcpServers'' = Some (JObj ?servers)"
    by (rule mergeMcpConfig_servers)
  have 5: "\<forall>name server. map_of (mcpServers bundle) name = Some server \<longrightarrow>
             map_of ?servers name = Some (mcpServerJson server)"
    by (simp add: merged_servers_lookup[OF assms(3)])
  have 6: "\<forall>name config old.
             existing = Parsed config \<and> map_of config ''mcpServers'' = Some (JObj old)
             \<and> map_of (mcpServers bundle) name = None \<longrightarrow>
             map_of ?servers name = map_of old name"
    by (auto simp: merged_servers_lookup[OF assms(3)] parsedConfig_def existingServersOf_def)
  have 7: "\<exists>ops0 msgs0.
             writeKiroBundle resolve NoFile backupPath outputRoot bundle = Inr (ops0, msgs0)
             \<and> ops0 \<noteq> [] \<and> last ops0 = last ops"
    if u: "existing = Unparseable"
  proof -
    from writeMcpServers_last[OF assms(2), of NoFile backupPath ?paths ops4 msgs4]
    obtain ops0 msgs0 where
      w: "writeMcpServers NoFile backupPath ?paths (mcpServers bundle) (ops4, msgs4) = (ops0, msgs0)"
      and n: "ops0 \<noteq> []"
      and l: "last ops0 = WriteJson (settingsDir ?paths @ [''mcp.json''])
                            (JObj (mergeMcpConfig (parsedConfig NoFile) (mcpServers bundle)))"
      by blast
    have "parsedConfig NoFile = parsedConfig existing" using u by (simp add: parsedConfig_def)
    with l 2 have "last ops0 = last ops" by simp
    with all[of NoFile] w n st4 show ?thesis by simp
  qed
  have c: "(case existing of NoFile \<Rightarrow> [] | Unparseable \<Rightarrow> [] | Parsed config \<Rightarrow> config) = ?cfg"
    by (simp add: parsedConfig_def)
  show ?thesis
    unfolding c
    apply (rule exI[of _ ?merged])
    apply (rule exI[of _ ?servers])
    apply (intro conjI)
          apply (rule 1)
         apply (rule 2)
        apply (rule 3)
       apply (rule 4)
      apply (rule 5)
     apply (rule 6)
    apply (rule impI)
    apply (erule 7)
    done
qed

text \<open>The theorem at a settings file with the keys \<open>theme\<close> and \<open>version\<close>, the existing
  server \<open>old\<close> and an existing entry \<open>b\<close>, which the bundle's \<open>b\<close> replaces.\<close>

theorem mcp_settings_merged_witness:
  "\<exists>ops msgs merged servers.
     writeKiroBundle concat settingsFile ''bk'' [''out''] settingsBundle = Inr (ops, msgs)
     \<and> mcpServers settingsBundle \<noteq> []
     \<and> distinct (map fst (mcpServers settingsBundle))
     \<and> last ops = WriteJson (settingsDir (resolveKiroPaths [''out'']) @ [''mcp.json''])
                     (JObj merged)
     \<and> map_of merged ''theme'' = Some (JStr ''dark'')
     \<and> map_of merged ''version'' = Some (JNum 2)
     \<and> map_of merged ''mcpServers'' = Some (JObj servers)
     \<and> map_of servers ''old'' = Some (JObj [(''command'', JStr ''uvx'')])
     \<and> map_of servers ''b''
         = Some (mcpServerJson \<lparr> mcp_command = ''npx'', mcp_args = Some [''-y'', ''pkg''],
                                 mcp_env = None \<rparr>)
     \<and> map_of servers ''new''
         = Some (mcpServerJson \<lparr> mcp_command = ''node'', mcp_args = None, mcp_env = None \<rparr>)"
proof -
  from settingsBundle_written obtain ops msgs where
    w: "writeKiroBundle concat settingsFile ''bk'' [''out''] settingsBundle = Inr (ops, msgs)"
    by blast
  have h2: "mcpServers settingsBundle \<noteq> []" by (simp add: settingsBundle_def)
  have h3: "distinct (map fst (mcpServers settingsBundle))" by (simp add: settingsBundle_def)
  from mcp_settings_merged[OF w h2 h3] obtain merged servers where
    l: "last ops = WriteJson (settingsDir (resolveKiroPaths [''out'']) @ [''mcp.json''])
                     (JObj merged)"
    and k: "\<forall>key. key \<noteq> ''mcpServers'' \<longrightarrow>
              map_of merged key =
                map_of (case settingsFile of
                          NoFile \<Rightarrow> [] | Unparseable \<Rightarrow> [] | Parsed config \<Rightarrow> config) key"
    and m: "map_of merged ''mcpServers'' = Some (JObj servers)"
    and n: "\<forall>name server. map_of (mcpServers settingsBundle) name = Some server \<longrightarrow>
              map_of servers name = Some (mcpServerJson server)"
    and o: "\<forall>name config old.
              settingsFile = Parsed config \<and> map_of config ''mcpServers'' = Some (JObj old)
              \<and> map_of (mcpServers settingsBundle) name = None \<longrightarrow>
              map_of servers name = map_of old name"
    by blast
  from k have k1: "map_of merged ''theme'' = Some (JStr ''dark'')"
    and k2: "map_of merged ''version'' = Some (JNum 2)"
    by (simp_all add: settingsFile_def)
  from n have n1: "map_of servers ''b''
         = Some (mcpServerJson \<lparr> mcp_command = ''npx'', mcp_args = Some [''-y'', ''pkg''],
                                 mcp_env = None \<rparr>)"
    and n2: "map_of servers ''new''
         = Some (mcpServerJson \<lparr> mcp_command = ''node'', mcp_args = None, mcp_env = None \<rparr>)"
    by (simp_all add: settingsBundle_def)
  from o[rule_format, of "[(''theme'', JStr ''dark''),
             (''mcpServers'', JObj [(''old'', JObj [(''command'', JStr ''uvx'')]), (''b'', JNull)]),
             (''version'', JNum 2)]" "[(''old'', JObj [(''command'', JStr ''uvx'')]), (''b'', JNull)]"
          "''old''"]
  have o1: "map_of servers ''old'' = Some (JObj [(''command'', JStr ''uvx'')])"
    by (simp add: settingsFile_def settingsBundle_def)
  from w h2 h3 l k1 k2 m o1 n1 n2 show ?thesis by blast
qed

text \<open>
  C6, as amended. For every source server map (an object, so its names are distinct) and
  every name other than \<^verbatim>\<open>__proto__\<close>, the converted map has an entry under the name
  exactly when the source has a server under it whose command is present and not empty; the
  entry holds the command, the argument list when that is present and not empty, and the
  environment when that is present and not empty; an empty argument list or environment is
  left out. Each server without a command, or with an empty one, gives exactly one warning,
  in the order of the source. Nothing is said of a server named \<^verbatim>\<open>__proto__\<close>.
\<close>

theorem mcp_servers_filtered:
  assumes "distinct (map fst entries)" and "name \<noteq> ''__proto__''"
  shows "map_of (fst (convertMcpServers (Some entries))) name =
           (case map_of entries name of
              None \<Rightarrow> None
            | Some server \<Rightarrow>
                (case server_command server of
                   None \<Rightarrow> None
                 | Some command \<Rightarrow>
                     if command = [] then None
                     else Some \<lparr> mcp_command = command,
                                 mcp_args = (if server_args server = Some [] then None
                                             else server_args server),
                                 mcp_env = (if server_env server = Some [] then None
                                            else server_env server) \<rparr>))
         \<and> distinct (map fst (fst (convertMcpServers (Some entries))))
         \<and> filter isWarn (snd (convertMcpServers (Some entries))) =
             map (\<lambda>(name, server).
                    Warn (''Warning: MCP server \"'' @ name
                      @ ''\" has no command (HTTP/SSE transport). Kiro only supports stdio. Skipping.''))
                 (filter (\<lambda>(name, server).
                           server_command server = None \<or> server_command server = Some [])
                         entries)"
proof -
  have 1: "map_of (fst (convertMcpServers (Some entries))) name =
           (case map_of entries name of
              None \<Rightarrow> None
            | Some server \<Rightarrow>
                (case server_command server of
                   None \<Rightarrow> None
                 | Some command \<Rightarrow>
                     if command = [] then None
                     else Some \<lparr> mcp_command = command,
                                 mcp_args = (if server_args server = Some [] then None
                                             else server_args server),
                                 mcp_env = (if server_env server = Some [] then None
                                            else server_env server) \<rparr>))"
    unfolding convertMcpServers_Some convertMcpEntries_result[OF assms]
    by (auto simp: lacksCommand_def kiroEntryOf_def split: option.splits)
  have 2: "distinct (map fst (fst (convertMcpServers (Some entries))))"
    unfolding convertMcpServers_Some by (rule convertMcpEntries_keys) simp
  have 3: "filter isWarn (snd (convertMcpServers (Some entries))) =
             map (\<lambda>(name, server). skipWarning name)
                 (filter (\<lambda>(name, server). lacksCommand server) entries)"
    unfolding convertMcpServers_Some convertMcpEntries_msgs
    using warnings_filter[of _ entries] by simp
  from 1 2 3 show ?thesis
    unfolding skipWarning_def lacksCommand_def by simp
qed


text \<open>The theorem at the example servers.\<close>

theorem mcp_servers_filtered_witness:
  "distinct (map fst exampleServers)
   \<and> map_of (fst (convertMcpServers (Some exampleServers))) ''remote'' = None
   \<and> map_of (fst (convertMcpServers (Some exampleServers))) ''local''
       = Some \<lparr> mcp_command = ''npx'', mcp_args = None, mcp_env = Some [(''KEY'', ''v'')] \<rparr>
   \<and> length (filter isWarn (snd (convertMcpServers (Some exampleServers)))) = 1"
proof -
  have d: "distinct (map fst exampleServers)" by (simp add: exampleServers_def)
  have r: "''remote'' \<noteq> ''__proto__''" and l: "''local'' \<noteq> ''__proto__''" by simp_all
  from mcp_servers_filtered[OF d r] mcp_servers_filtered[OF d l] d
  show ?thesis by (simp add: exampleServers_def)
qed


text \<open>
  C6 as stated fails: the server \<open>local\<close> has a command and the argument list \<open>[]\<close>, and
  its entry in the bundle has no argument list.
\<close>

theorem empty_args_dropped:
  "server_command (snd (exampleServers ! 1)) = Some ''npx''
   \<and> server_args (snd (exampleServers ! 1)) = Some []
   \<and> map_of (fst (convertMcpServers (Some exampleServers))) ''local''
       = Some \<lparr> mcp_command = ''npx'', mcp_args = None, mcp_env = Some [(''KEY'', ''v'')] \<rparr>"
  by (simp add: exampleServers_def convertMcpServers_def assignKey_def Let_def)

text \<open>
  C7. The agent reference pass is meant to rewrite a mention only when its name is a known
  agent name. The pattern \<^verbatim>\<open>@(n1|n2|...)\b\<close> ends a name at a word boundary, and a
  hyphen is not a word character: with the names \<open>["re"]\<close>, the mention \<open>@re-view\<close> of
  the unknown name \<open>re-view\<close> is rewritten to \<open>the re agent-view\<close>. The two examples of
  the claim hold: with the names \<open>["reviewer"]\<close>, \<open>@reviewer please check\<close> is rewritten
  and \<open>@unknown please check\<close> is left as it is.
\<close>

theorem unknown_mention_rewritten:
  "''re-view'' \<notin> set [''re'']
   \<and> transformContentForKiro ''@re-view please check'' [''re'']
       = ''the re agent-view please check''
   \<and> transformContentForKiro ''@reviewer please check'' [''reviewer'']
       = ''the reviewer agent please check''
   \<and> transformContentForKiro ''@unknown please check'' [''reviewer'']
       = ''@unknown please check''"
  by (simp add: transform_eval)

text \<open>
  C8, as amended. For every input, \<open>normalizeName\<close> returns a non-empty identifier of at
  most 64 characters that does not end in a hyphen. When the form of the name before the
  limit is enforced is longer than 64 characters, the name is cut at the last hyphen among
  its first 64 characters if there is one, and otherwise after 64 characters; a result that
  does not start with a lower-case letter is replaced by \<open>item\<close>.
\<close>

theorem normalizeName_bounded:
  "length (normalizeName x) \<le> KIRO_SKILL_NAME_MAX_LENGTH
   \<and> normalizeName x \<noteq> []
   \<and> last (normalizeName x) \<noteq> CHR ''-''
   \<and> (trim x \<noteq> [] \<and> KIRO_SKILL_NAME_MAX_LENGTH < length (normalizeChain (trim x)) \<longrightarrow>
        (if CHR ''-'' \<in> set (take KIRO_SKILL_NAME_MAX_LENGTH (normalizeChain (trim x)))
         then \<exists>k. 0 < k \<and> k < KIRO_SKILL_NAME_MAX_LENGTH
                  \<and> normalizeChain (trim x) ! k = CHR ''-''
                  \<and> CHR ''-'' \<notin> set (drop (Suc k)
                                     (take KIRO_SKILL_NAME_MAX_LENGTH (normalizeChain (trim x))))
                  \<and> normalizeName x =
                      (if startsWithLowerAlpha (normalizeChain (trim x))
                       then take k (normalizeChain (trim x)) else ''item'')
         else normalizeName x =
                (if startsWithLowerAlpha (normalizeChain (trim x))
                 then take KIRO_SKILL_NAME_MAX_LENGTH (normalizeChain (trim x)) else ''item'')))"
proof -
  let ?M = KIRO_SKILL_NAME_MAX_LENGTH
  let ?n = "normalizeChain (trim x)"
  have bound: "length (normalizeName x) \<le> ?M"
    using normalizeName_length[of x] by (simp add: KIRO_SKILL_NAME_MAX_LENGTH_def)
  have cut: "(if CHR ''-'' \<in> set (take ?M ?n)
         then \<exists>k. 0 < k \<and> k < ?M \<and> ?n ! k = CHR ''-''
                  \<and> CHR ''-'' \<notin> set (drop (Suc k) (take ?M ?n))
                  \<and> normalizeName x =
                      (if startsWithLowerAlpha ?n then take k ?n else ''item'')
         else normalizeName x = (if startsWithLowerAlpha ?n then take ?M ?n else ''item''))"
    if ne: "trim x \<noteq> []" and long: "?M < length ?n"
  proof (cases "CHR ''-'' \<in> set (take ?M ?n)")
    case True
    from long have nn: "?n \<noteq> []" by auto
    from enforceMaxLength_hyphen[OF normalizeChain_noDoubleHyphen normalizeChain_head[OF nn]
        long True]
    obtain k where k: "0 < k" "k < ?M" "?n ! k = CHR ''-''"
      "CHR ''-'' \<notin> set (drop (Suc k) (take ?M ?n))" "enforceMaxLength ?n = take k ?n"
      by blast
    from k(1) have s: "startsWithLowerAlpha (take k ?n) = startsWithLowerAlpha ?n"
      by (rule startsWithLowerAlpha_take)
    from k(1) nn have tk: "take k ?n \<noteq> []" by auto
    from normalizeName_unfold[OF ne k(5) tk] s have "normalizeName x =
        (if startsWithLowerAlpha ?n then take k ?n else ''item'')"
      by simp
    with k True show ?thesis by auto
  next
    case False
    from long have nn: "?n \<noteq> []" by auto
    have M0: "0 < ?M" by (simp add: KIRO_SKILL_NAME_MAX_LENGTH_def)
    from enforceMaxLength_nohyphen[OF long False]
    have e: "enforceMaxLength ?n = take ?M ?n" .
    from M0 have s: "startsWithLowerAlpha (take ?M ?n) = startsWithLowerAlpha ?n"
      by (rule startsWithLowerAlpha_take)
    from M0 nn have tk: "take ?M ?n \<noteq> []" by auto
    from normalizeName_unfold[OF ne e tk] s have "normalizeName x =
        (if startsWithLowerAlpha ?n then take ?M ?n else ''item'')"
      by simp
    with False show ?thesis by auto
  qed
  from bound normalizeName_nonempty normalizeName_last cut show ?thesis by blast
qed

text \<open>The theorem at a long name with a hyphen among its first 64 characters.\<close>

theorem normalizeName_bounded_witness:
  "trim longHyphenated \<noteq> []
   \<and> KIRO_SKILL_NAME_MAX_LENGTH < length (normalizeChain (trim longHyphenated))
   \<and> CHR ''-'' \<in> set (take KIRO_SKILL_NAME_MAX_LENGTH (normalizeChain (trim longHyphenated)))
   \<and> (\<exists>k. 0 < k \<and> k < KIRO_SKILL_NAME_MAX_LENGTH
          \<and> normalizeChain (trim longHyphenated) ! k = CHR ''-''
          \<and> normalizeName longHyphenated = take k (normalizeChain (trim longHyphenated)))"
proof -
  let ?n = "normalizeChain (trim longHyphenated)"
  have h1: "trim longHyphenated \<noteq> []"
    using longHyphenated_chain by (auto simp: normalizeChain_def stripHyphens_def stripTrailingHyphens_def toLowerCase_def)
  have h2: "KIRO_SKILL_NAME_MAX_LENGTH < length ?n"
    by (simp add: longHyphenated_chain KIRO_SKILL_NAME_MAX_LENGTH_def)
  have h3: "CHR ''-'' \<in> set (take KIRO_SKILL_NAME_MAX_LENGTH ?n)"
    by (simp add: longHyphenated_chain KIRO_SKILL_NAME_MAX_LENGTH_def)
  have h4: "startsWithLowerAlpha ?n"
    by (simp add: longHyphenated_chain isLowerAlpha_def code_def)
  from normalizeName_bounded[of longHyphenated] h1 h2 h3 h4
  have "\<exists>k. 0 < k \<and> k < KIRO_SKILL_NAME_MAX_LENGTH \<and> ?n ! k = CHR ''-''
          \<and> CHR ''-'' \<notin> set (drop (Suc k) (take KIRO_SKILL_NAME_MAX_LENGTH ?n))
          \<and> normalizeName longHyphenated = take k ?n"
    by simp
  with h1 h2 h3 show ?thesis by blast
qed


text \<open>
  C8 as stated fails: a name of 70 letters without a hyphen is cut after 64 characters,
  between two letters.
\<close>

theorem truncation_mid_word:
  "KIRO_SKILL_NAME_MAX_LENGTH < length (normalizeChain (trim longWord))
   \<and> normalizeName longWord = take KIRO_SKILL_NAME_MAX_LENGTH (normalizeChain (trim longWord))
   \<and> normalizeChain (trim longWord) ! (KIRO_SKILL_NAME_MAX_LENGTH - 1) \<noteq> CHR ''-''
   \<and> normalizeChain (trim longWord) ! KIRO_SKILL_NAME_MAX_LENGTH \<noteq> CHR ''-''"
proof -
  have n: "normalizeName longWord = ''aaaaaaaaaaaaaaaaaaaaaaaaaaaaaaaaaaaaaaaaaaaaaaaaaaaaaaaaaaaaaaaa''"
    by (simp add: string_eval longWord_def)
  show ?thesis
    unfolding longWord_chain n by (simp add: longWord_def KIRO_SKILL_NAME_MAX_LENGTH_def)
qed

text \<open>
  C9. For every plugin, the identifier of every agent record and of every generated-skill
  record of the bundle contains no \<open>..\<close>, no \<open>/\<close> and no backslash, so
  \<open>validatePathSafe\<close> accepts it, and the writer's loops over the agents and over the
  generated skills of the bundle do not throw.
\<close>

theorem converter_identifiers_path_safe:
  "(\<forall>a\<in>set (agents (fst (convertClaudeToKiro fmt claudeMd plugin))).
       \<not> includesStr (kagent_name a) ''..'' \<and> \<not> includesStr (kagent_name a) ''/''
       \<and> \<not> includesStr (kagent_name a) [CHR 0x5C]
       \<and> validatePathSafe (kagent_name a) ''agent'' = None)
   \<and> (\<forall>s\<in>set (generatedSkills (fst (convertClaudeToKiro fmt claudeMd plugin))).
       \<not> includesStr (kskill_name s) ''..'' \<and> \<not> includesStr (kskill_name s) ''/''
       \<and> \<not> includesStr (kskill_name s) [CHR 0x5C]
       \<and> validatePathSafe (kskill_name s) ''skill'' = None)
   \<and> (\<exists>st'. writeAgents paths (agents (fst (convertClaudeToKiro fmt claudeMd plugin))) st
               = Inr st')
   \<and> (\<exists>st'. writeGeneratedSkills paths
               (generatedSkills (fst (convertClaudeToKiro fmt claudeMd plugin))) st = Inr st')"
proof -
  let ?b = "fst (convertClaudeToKiro fmt claudeMd plugin)"
  have a: "\<forall>c\<in>set (kagent_name a). isNameChar c" if "a \<in> set (agents ?b)" for a
    using that normalizeName_chars by (auto simp: convert_agents convertAgent_name)
  have s: "\<forall>c\<in>set (kskill_name s). isNameChar c" if "s \<in> set (generatedSkills ?b)" for s
  proof -
    have "list_all2 (\<lambda>c k. suffixedFrom (normalizeName (command_name c)) (kskill_name k))
        (plugin_commands plugin) (generatedSkills ?b)"
      using convert_generated_names[of fmt claudeMd plugin] by (rule conjunct2[THEN conjunct2])
    from list_all2_right[OF this that]
    obtain c :: ClaudeCommand
      where "suffixedFrom (normalizeName (command_name c)) (kskill_name s)"
      by blast
    then show ?thesis using suffixedFrom_chars by blast
  qed
  have 1: "\<forall>a\<in>set (agents ?b).
       \<not> includesStr (kagent_name a) ''..'' \<and> \<not> includesStr (kagent_name a) ''/''
       \<and> \<not> includesStr (kagent_name a) [CHR 0x5C]
       \<and> validatePathSafe (kagent_name a) ''agent'' = None"
    using a nameChars_safe nameChars_validate by blast
  have 2: "\<forall>s\<in>set (generatedSkills ?b).
       \<not> includesStr (kskill_name s) ''..'' \<and> \<not> includesStr (kskill_name s) ''/''
       \<and> \<not> includesStr (kskill_name s) [CHR 0x5C]
       \<and> validatePathSafe (kskill_name s) ''skill'' = None"
    using s nameChars_safe nameChars_validate by blast
  from 1 have 3: "\<exists>st'. writeAgents paths (agents ?b) st = Inr st'"
    by (intro writeAgents_safe) simp
  from 2 have 4: "\<exists>st'. writeGeneratedSkills paths (generatedSkills ?b) st = Inr st'"
    by (intro writeGeneratedSkills_safe) simp
  from 1 2 3 4 show ?thesis by blast
qed


text \<open>The theorem at the example plugin, for its first agent and its first generated skill.\<close>

theorem converter_identifiers_path_safe_witness:
  "agents (fst (convertClaudeToKiro bodyOnly None examplePlugin)) \<noteq> []
   \<and> generatedSkills (fst (convertClaudeToKiro bodyOnly None examplePlugin)) \<noteq> []
   \<and> validatePathSafe
        (kagent_name (hd (agents (fst (convertClaudeToKiro bodyOnly None examplePlugin)))))
        ''agent'' = None
   \<and> validatePathSafe
        (kskill_name (hd (generatedSkills (fst (convertClaudeToKiro bodyOnly None examplePlugin)))))
        ''skill'' = None"
proof -
  let ?b = "fst (convertClaudeToKiro bodyOnly None examplePlugin)"
  have a: "hd (agents ?b) \<in> set (agents ?b)"
    using example_agents_nonempty by (rule hd_in_set)
  have s: "hd (generatedSkills ?b) \<in> set (generatedSkills ?b)"
    using example_generated_nonempty by (rule hd_in_set)
  from converter_identifiers_path_safe[of bodyOnly None examplePlugin] a s
    example_agents_nonempty example_generated_nonempty
  show ?thesis by blast
qed


text \<open>
  C10. For every plugin, the pass-through skill records of the bundle carry the source
  names as they are. The commands are converted with the registry that the first loop of
  the converter leaves, which holds the normalized forms of these names and nothing else:
  the first command gets its normalized name as identifier exactly when that name is not
  the normalized form of the name of a pass-through skill. Writing the bundle
  throws when \<open>validatePathSafe\<close> rejects the source name of a pass-through skill, with
  the message that gives that source name. Otherwise the write succeeds, and the copies it
  makes are exactly those of the pass-through skills whose destination stays inside the
  skills directory, in order, each to the path under the source name; every other
  pass-through skill is skipped with the warning that gives its source name. No directory
  is copied to a path under a normalized name.
\<close>

theorem passthrough_skill_names_verbatim:
  "skillDirs (fst (convertClaudeToKiro fmt claudeMd plugin)) =
     map (\<lambda>skill. \<lparr> kdir_name = skill_name skill, kdir_sourceDir = skill_sourceDir skill \<rparr>)
         (plugin_skills plugin)
   \<and> generatedSkills (fst (convertClaudeToKiro fmt claudeMd plugin)) =
       fst (convertCommands fmt (plugin_commands plugin)
              (reserveSkillNames (skillDirs (fst (convertClaudeToKiro fmt claudeMd plugin))))
              (map (\<lambda>a. normalizeName (agent_name a)) (plugin_agents plugin)))
   \<and> set (reserveSkillNames (skillDirs (fst (convertClaudeToKiro fmt claudeMd plugin)))) =
       (\<lambda>skill. normalizeName (skill_name skill)) ` set (plugin_skills plugin)
   \<and> (\<forall>c cs. plugin_commands plugin = c # cs \<longrightarrow>
         (kskill_name (hd (generatedSkills (fst (convertClaudeToKiro fmt claudeMd plugin))))
            = normalizeName (command_name c))
         = (normalizeName (command_name c)
              \<notin> (\<lambda>skill. normalizeName (skill_name skill)) ` set (plugin_skills plugin)))
   \<and> ((\<exists>skill\<in>set (plugin_skills plugin). unsafeName (skill_name skill)) \<longrightarrow>
        (\<exists>err st. writeKiroBundle resolve existing backupPath outputRoot
                     (fst (convertClaudeToKiro fmt claudeMd plugin)) = Inl (err, st)
           \<and> (\<exists>skill\<in>set (plugin_skills plugin). unsafeName (skill_name skill)
                \<and> err = ''skill directory name contains unsafe path characters: ''
                          @ skill_name skill)))
   \<and> ((\<forall>skill\<in>set (plugin_skills plugin). \<not> unsafeName (skill_name skill)) \<longrightarrow>
        (\<exists>ops msgs. writeKiroBundle resolve existing backupPath outputRoot
                       (fst (convertClaudeToKiro fmt claudeMd plugin)) = Inr (ops, msgs)
           \<and> filter isCopyDir ops =
               map (\<lambda>skill. CopyDir (skill_sourceDir skill)
                              (skillsDir (resolveKiroPaths outputRoot) @ [skill_name skill]))
                   (filter (\<lambda>skill. inside resolve (resolveKiroPaths outputRoot) (skill_name skill))
                           (plugin_skills plugin))
           \<and> (\<forall>skill\<in>set (plugin_skills plugin).
                 \<not> inside resolve (resolveKiroPaths outputRoot) (skill_name skill) \<longrightarrow>
                 escapeWarning (skill_name skill) \<in> set msgs)))"
proof -
  let ?b = "fst (convertClaudeToKiro fmt claudeMd plugin)"
  let ?w = "writeKiroBundle resolve existing backupPath outputRoot ?b"
  have 1: "skillDirs ?b =
     map (\<lambda>skill. \<lparr> kdir_name = skill_name skill, kdir_sourceDir = skill_sourceDir skill \<rparr>)
         (plugin_skills plugin)"
    by (rule convert_skillDirs)
  have r1: "generatedSkills ?b =
       fst (convertCommands fmt (plugin_commands plugin) (reserveSkillNames (skillDirs ?b))
              (map (\<lambda>a. normalizeName (agent_name a)) (plugin_agents plugin)))"
    by (rule convert_generatedSkills)
  have r2: "set (reserveSkillNames (skillDirs ?b)) =
       (\<lambda>skill. normalizeName (skill_name skill)) ` set (plugin_skills plugin)"
    by (simp add: reserveSkillNames_set 1 image_image)
  have 2: "\<forall>c cs. plugin_commands plugin = c # cs \<longrightarrow>
         (kskill_name (hd (generatedSkills ?b)) = normalizeName (command_name c))
         = (normalizeName (command_name c)
              \<notin> (\<lambda>skill. normalizeName (skill_name skill)) ` set (plugin_skills plugin))"
    using convert_head_name[of plugin _ _ fmt claudeMd] by blast
  have 3: "\<exists>err st. ?w = Inl (err, st)
           \<and> (\<exists>skill\<in>set (plugin_skills plugin). unsafeName (skill_name skill)
                \<and> err = ''skill directory name contains unsafe path characters: ''
                          @ skill_name skill)"
    if u: "\<exists>skill\<in>set (plugin_skills plugin). unsafeName (skill_name skill)"
  proof -
    from u have d: "\<exists>d\<in>set (skillDirs ?b). unsafeName (kdir_name d)" by (simp add: 1)
    from writeKiroBundle_dirs_abort[OF convert_agents_safe convert_generated_safe d,
        of resolve existing backupPath outputRoot]
    obtain err st where w: "?w = Inl (err, st)" by blast
    from writeKiroBundle_passthrough[OF convert_agents_validate[of fmt claudeMd plugin]
      convert_generated_validate[of fmt claudeMd plugin]
      convert_steering_safe[of fmt claudeMd plugin], where resolve = resolve
      and existing = existing and backupPath = backupPath and outputRoot = outputRoot] w
    have "\<exists>skill\<in>set (plugin_skills plugin). unsafeName (skill_name skill)
                \<and> err = ''skill directory name contains unsafe path characters: ''
                          @ skill_name skill"
      by (simp add: 1)
    with w show ?thesis by blast
  qed
  have 4: "\<exists>ops msgs. ?w = Inr (ops, msgs)
           \<and> filter isCopyDir ops =
               map (\<lambda>skill. CopyDir (skill_sourceDir skill)
                              (skillsDir (resolveKiroPaths outputRoot) @ [skill_name skill]))
                   (filter (\<lambda>skill. inside resolve (resolveKiroPaths outputRoot) (skill_name skill))
                           (plugin_skills plugin))
           \<and> (\<forall>skill\<in>set (plugin_skills plugin).
                 \<not> inside resolve (resolveKiroPaths outputRoot) (skill_name skill) \<longrightarrow>
                 escapeWarning (skill_name skill) \<in> set msgs)"
    if s: "\<forall>skill\<in>set (plugin_skills plugin). \<not> unsafeName (skill_name skill)"
  proof -
    from s have d: "\<forall>d\<in>set (skillDirs ?b). \<not> unsafeName (kdir_name d)" by (simp add: 1)
    from writeKiroBundle_copies[OF convert_agents_safe convert_generated_safe d
        convert_steering_safe, of resolve existing backupPath outputRoot]
    show ?thesis
      by (simp add: 1 filter_map comp_def copyOp_def)
  qed
  from 1 r1 r2 2 3 4 show ?thesis by blast
qed


text \<open>The theorem at the example plugin: \<open>Doc Writer\<close> is reserved as \<open>doc-writer\<close>, so
  the first command, which normalizes to \<open>doc-writer\<close>, gets another identifier, and the
  directory is copied to the path under \<open>Doc Writer\<close>.\<close>

theorem passthrough_skill_names_verbatim_witness:
  "plugin_skills examplePlugin = [\<lparr> skill_name = ''Doc Writer'', skill_sourceDir = ''skills/doc'' \<rparr>]
   \<and> command_name (hd (plugin_commands examplePlugin)) = ''doc writer''
   \<and> normalizeName ''Doc Writer'' = ''doc-writer''
   \<and> normalizeName ''doc writer'' = ''doc-writer''
   \<and> map kdir_name (skillDirs (fst (convertClaudeToKiro bodyOnly None examplePlugin)))
       = [''Doc Writer'']
   \<and> set (reserveSkillNames (skillDirs (fst (convertClaudeToKiro bodyOnly None examplePlugin))))
       = {''doc-writer''}
   \<and> kskill_name (hd (generatedSkills (fst (convertClaudeToKiro bodyOnly None examplePlugin))))
       \<noteq> ''doc-writer''
   \<and> \<not> unsafeName ''Doc Writer''
   \<and> (\<exists>ops msgs.
         writeKiroBundle concat NoFile [] [''out'']
           (fst (convertClaudeToKiro bodyOnly None examplePlugin)) = Inr (ops, msgs)
         \<and> filter isCopyDir ops
             = [CopyDir ''skills/doc'' [''out'', ''.kiro'', ''skills'', ''Doc Writer'']])"
proof -
  let ?b = "fst (convertClaudeToKiro bodyOnly None examplePlugin)"
  have p: "plugin_skills examplePlugin
      = [\<lparr> skill_name = ''Doc Writer'', skill_sourceDir = ''skills/doc'' \<rparr>]"
    by (simp add: examplePlugin_def)
  obtain cs where c: "plugin_commands examplePlugin
      = \<lparr> command_name = ''doc writer'', command_description = None, command_body = ''a'' \<rparr> # cs"
    by (simp add: examplePlugin_def)
  then have c': "command_name (hd (plugin_commands examplePlugin)) = ''doc writer''" by simp
  have n: "normalizeName ''Doc Writer'' = ''doc-writer''"
    "normalizeName ''doc writer'' = ''doc-writer''"
    by (simp_all add: string_eval)
  have s: "\<not> unsafeName ''Doc Writer''"
    by (simp add: unsafeName_def)
  note t = passthrough_skill_names_verbatim[where fmt = bodyOnly and claudeMd = None
      and plugin = examplePlugin and resolve = concat and existing = NoFile
      and backupPath = "[]" and outputRoot = "[''out'']"]
  from t[THEN conjunct1] p have d: "map kdir_name (skillDirs ?b) = [''Doc Writer'']" by simp
  from t[THEN conjunct2, THEN conjunct2, THEN conjunct1] p n
  have r: "set (reserveSkillNames (skillDirs ?b)) = {''doc-writer''}" by simp
  from t[THEN conjunct2, THEN conjunct2, THEN conjunct2, THEN conjunct1] c
  have "(kskill_name (hd (generatedSkills ?b)) = normalizeName ''doc writer'')
         = (normalizeName ''doc writer''
              \<notin> (\<lambda>skill. normalizeName (skill_name skill)) ` set (plugin_skills examplePlugin))"
    by simp
  with p n have h: "kskill_name (hd (generatedSkills ?b)) \<noteq> ''doc-writer''" by simp
  from p s have "\<forall>skill\<in>set (plugin_skills examplePlugin). \<not> unsafeName (skill_name skill)"
    by simp
  with t[THEN conjunct2, THEN conjunct2, THEN conjunct2, THEN conjunct2, THEN conjunct2]
  obtain ops msgs where w: "writeKiroBundle concat NoFile [] [''out''] ?b = Inr (ops, msgs)"
    and f: "filter isCopyDir ops =
               map (\<lambda>skill. CopyDir (skill_sourceDir skill)
                              (skillsDir (resolveKiroPaths [''out'']) @ [skill_name skill]))
                   (filter (\<lambda>skill. inside concat (resolveKiroPaths [''out'']) (skill_name skill))
                           (plugin_skills examplePlugin))"
    by blast
  from f p have "filter isCopyDir ops
             = [CopyDir ''skills/doc'' [''out'', ''.kiro'', ''skills'', ''Doc Writer'']]"
    by (simp add: inside_concat resolveKiroPaths_def)
  with w have e: "\<exists>ops msgs.
         writeKiroBundle concat NoFile [] [''out''] ?b = Inr (ops, msgs)
         \<and> filter isCopyDir ops
             = [CopyDir ''skills/doc'' [''out'', ''.kiro'', ''skills'', ''Doc Writer'']]"
    by blast
  from p c' n d r h s e show ?thesis by blast
qed

end
